theory Spec2Isabelle
  imports Main
begin

section \<open>The match miner of \<^verbatim>\<open>mining/steam_miner.py\<close>\<close>

text \<open>
  The module polls the Steam match-history API in chunks, filters every match with
  \<^verbatim>\<open>valid\<close>, appends the identifiers of the valid matches to an output file and keeps
  the next sequence number to ask for in \<^verbatim>\<open>seq_num.txt\<close>. It is Python 2
  (\<^verbatim>\<open>xrange\<close>, \<^verbatim>\<open>urllib.urlopen\<close>): \<^verbatim>\<open>/\<close> on integers is floor division, integers
  are unbounded.
\<close>

subsection \<open>Data\<close>

text \<open>
  Exceptions of the source are values: a missing dictionary key is \<open>KeyError\<close> with the
  key, a failing \<^verbatim>\<open>urllib.urlopen\<close> or \<^verbatim>\<open>open\<close> is \<open>IOError\<close>, \<^verbatim>\<open>int\<close> applied to
  a line that is not a number is \<open>ValueError\<close>, and \<^verbatim>\<open>in\<close> or indexing by a key applied
  to a value that does not support it is \<open>TypeError\<close>.
\<close>

datatype error = KeyError string | IOError | ValueError | TypeError

text \<open>
  A player entry of the response is a dictionary; \<^verbatim>\<open>valid\<close> reads one key of it, with
  \<^verbatim>\<open>dict.get\<close>. A match is a dictionary too, read with \<^verbatim>\<open>match_json[key]\<close>, which
  raises when the key is absent: every key the module reads is a field that may be
  missing (\<open>None\<close>). The values are the integers the API delivers.
\<close>

type_synonym player = "string \<rightharpoonup> int"

record match_json =
  players :: "player list option"
  duration :: "int option"
  human_players :: "int option"
  game_mode :: "int option"
  match_id :: "int option"
  match_seq_num :: "int option"

definition MIN_DURATION :: int where
  "MIN_DURATION = 1200"

definition NUM_GAME_LIMIT :: int where
  "NUM_GAME_LIMIT = 100000 * 100"

subsection \<open>The validity filter\<close>

text \<open>\<^verbatim>\<open>d.get(k, default)\<close> of Python.\<close>

definition dict_get :: "('k \<rightharpoonup> 'v) \<Rightarrow> 'k \<Rightarrow> 'v \<Rightarrow> 'v" where
  "dict_get d k dflt = (case d k of None \<Rightarrow> dflt | Some v \<Rightarrow> v)"

text \<open>
  The \<^verbatim>\<open>for player in match_json['players']\<close> loop of \<^verbatim>\<open>valid\<close>: \<open>True\<close> when the
  loop leaves the function with \<^verbatim>\<open>return False\<close>, which it does at the first player whose
  \<^verbatim>\<open>player.get('leaver_status', 1)\<close> equals 1.
\<close>

fun leaver_loop :: "player list \<Rightarrow> bool" where
  "leaver_loop [] = False"
| "leaver_loop (player # rest) =
     (if dict_get player ''leaver_status'' 1 = 1 then True else leaver_loop rest)"

definition valid :: "match_json \<Rightarrow> error + bool" where
  "valid m =
     (case players m of
        None \<Rightarrow> Inl (KeyError ''players'')
      | Some ps \<Rightarrow>
          if leaver_loop ps then Inr False
          else (case duration m of
            None \<Rightarrow> Inl (KeyError ''duration'')
          | Some d \<Rightarrow>
              if d < MIN_DURATION then Inr False
              else (case human_players m of
                None \<Rightarrow> Inl (KeyError ''human_players'')
              | Some h \<Rightarrow>
                  if h \<noteq> 10 then Inr False
                  else (case game_mode m of
                    None \<Rightarrow> Inl (KeyError ''game_mode'')
                  | Some g \<Rightarrow> if g \<noteq> 22 then Inr False else Inr True))))"

subsection \<open>Responses, requests and the state of a run\<close>

text \<open>
  A response that decodes to a dictionary: its \<^verbatim>\<open>'result'\<close> entry holds a dictionary
  whose \<^verbatim>\<open>'matches'\<close> entry is the list of matches. Either key may be absent.
\<close>

record result_json =
  matches :: "match_json list option"

record games_json =
  result :: "result_json option"

text \<open>
  What one \<^verbatim>\<open>urllib.urlopen\<close> followed by \<^verbatim>\<open>json.load\<close> yields: the request itself
  raises (\<open>UrlError\<close>), the body is not JSON (\<open>NotJson\<close>, the \<^verbatim>\<open>ValueError\<close> that
  \<^verbatim>\<open>get_response\<close> catches), or the body decodes: to \<^verbatim>\<open>null\<close>, a number or a
  boolean (\<open>JsonScalar\<close>, on which \<^verbatim>\<open>'result' not in games_json\<close> raises), to a list or
  a string (\<open>JsonSequence\<close>, with the value of \<^verbatim>\<open>'result' in games_json\<close>, which is all
  the module asks of it: an element equal to \<^verbatim>\<open>'result'\<close> of the list, the substring of
  the string), or to a dictionary (\<open>Json\<close>).
\<close>

datatype raw_response =
    UrlError
  | NotJson
  | JsonScalar
  | JsonSequence bool
  | Json games_json

text \<open>
  What \<^verbatim>\<open>get_response\<close> returns when it does not return \<^verbatim>\<open>None\<close>: the decoded body
  in which \<^verbatim>\<open>'result'\<close> was found, a dictionary or else a list or a string.
\<close>

datatype returned = Dictionary games_json | Sequence

text \<open>
  The URL that \<^verbatim>\<open>get_url\<close> concatenates from the base URL, the API key,
  \<^verbatim>\<open>str(self.seq_num)\<close> and \<^verbatim>\<open>str(matches_requested)\<close>, kept as the values of its three
  query parameters \<^verbatim>\<open>key\<close>, \<^verbatim>\<open>start_at_match_seq_num\<close> and \<^verbatim>\<open>matches_requested\<close>.
\<close>

record url =
  key :: string
  start_at_match_seq_num :: int
  matches_requested :: int

text \<open>
  The network is outside the program: a transport gives the outcome of a request from
  the number of requests the process has issued before it and the URL.
\<close>

type_synonym transport = "nat \<Rightarrow> url \<Rightarrow> raw_response"

text \<open>The lines the module prints.\<close>

datatype line = StartMining int | CannotParse | InvalidJson | Processed int

text \<open>
  \<^verbatim>\<open>seq_num.txt\<close>: absent, holding something \<^verbatim>\<open>int\<close> rejects, or holding the decimal
  text of a number (what \<^verbatim>\<open>str\<close> writes and \<^verbatim>\<open>int\<close> reads back).
\<close>

datatype seq_file = Absent | NotANumber | Decimal int

text \<open>
  The object's four attributes, and what its methods do to the world: the lines
  appended to the output file (one match identifier each), the content of
  \<^verbatim>\<open>seq_num.txt\<close>, the requests sent, the arguments of \<^verbatim>\<open>time.sleep\<close>, and the lines
  printed, each in order.
\<close>

record miner =
  games_number :: int
  out_file :: "int list"
  api_key :: string
  seq_num :: int
  seq_num_txt :: seq_file
  requests :: "url list"
  sleeps :: "nat list"
  stdout :: "line list"

text \<open>
  A Python call evaluates to a value; \<^verbatim>\<open>run\<close> has no \<^verbatim>\<open>return\<close> statement, so its
  calls evaluate to \<^verbatim>\<open>None\<close>. An object with named fields is a \<open>PyObject\<close>.
\<close>

datatype py_value =
    PyNone
  | PyBool bool
  | PyInt int
  | PyObject "(string \<times> py_value) list"

fun has_field :: "py_value \<Rightarrow> string \<Rightarrow> bool" where
  "has_field (PyObject kvs) name = (name \<in> set (map fst kvs))"
| "has_field _ name = False"

subsection \<open>The miner\<close>

definition get_starting_match_sequence_number :: "seq_file \<Rightarrow> error + int" where
  "get_starting_match_sequence_number f =
     (case f of Absent \<Rightarrow> Inl IOError | NotANumber \<Rightarrow> Inl ValueError | Decimal num \<Rightarrow> Inr num)"

text \<open>
  \<^verbatim>\<open>SteamMiner.__init__\<close>, given the content of the output file behind the handle and
  of \<^verbatim>\<open>seq_num.txt\<close>; a new process has sent, slept and printed nothing.
\<close>

definition SteamMiner_init :: "int \<Rightarrow> int list \<Rightarrow> string \<Rightarrow> seq_file \<Rightarrow> error + miner" where
  "SteamMiner_init number_of_games out_file_handle k f =
     (case get_starting_match_sequence_number f of
        Inl e \<Rightarrow> Inl e
      | Inr num \<Rightarrow>
          Inr \<lparr>games_number = min number_of_games NUM_GAME_LIMIT,
               out_file = out_file_handle,
               api_key = k,
               seq_num = num,
               seq_num_txt = f,
               requests = [],
               sleeps = [],
               stdout = []\<rparr>)"

definition save_sequence_number :: "miner \<Rightarrow> miner" where
  "save_sequence_number s = s\<lparr>seq_num_txt := Decimal (seq_num s)\<rparr>"

definition get_url :: "miner \<Rightarrow> int \<Rightarrow> url" where
  "get_url s n =
     \<lparr>key = api_key s, start_at_match_seq_num = seq_num s, matches_requested = n\<rparr>"

definition print :: "line \<Rightarrow> miner \<Rightarrow> miner" where
  "print l s = s\<lparr>stdout := stdout s @ [l]\<rparr>"

definition sleep :: "nat \<Rightarrow> miner \<Rightarrow> miner" where
  "sleep n s = s\<lparr>sleeps := sleeps s @ [n]\<rparr>"

definition urlopen :: "url \<Rightarrow> miner \<Rightarrow> miner" where
  "urlopen u s = s\<lparr>requests := requests s @ [u]\<rparr>"

text \<open>
  \<^verbatim>\<open>get_response\<close>: the \<^verbatim>\<open>for i in xrange(max_try)\<close> loop, the third argument being the
  number of iterations left. An exception of \<^verbatim>\<open>urllib.urlopen\<close> is not caught, and
  neither is the one that \<^verbatim>\<open>'result' not in games_json\<close>, which stands outside the
  \<^verbatim>\<open>try\<close>, raises on \<^verbatim>\<open>null\<close>, a number or a boolean. A body that does not parse, and
  a dictionary, a list or a string without \<^verbatim>\<open>'result'\<close> in it, print, sleep 60 and go
  to the next iteration. When the iterations are used up the function returns \<^verbatim>\<open>None\<close>.
\<close>

fun get_response :: "transport \<Rightarrow> url \<Rightarrow> nat \<Rightarrow> miner \<Rightarrow> (error + returned option) \<times> miner" where
  "get_response net url_api 0 s = (Inr None, s)"
| "get_response net url_api (Suc n) s =
     (case net (length (requests s)) url_api of
        UrlError \<Rightarrow> (Inl IOError, urlopen url_api s)
      | NotJson \<Rightarrow> get_response net url_api n (sleep 60 (print CannotParse (urlopen url_api s)))
      | JsonScalar \<Rightarrow> (Inl TypeError, urlopen url_api s)
      | JsonSequence has_result \<Rightarrow>
          if has_result then (Inr (Some Sequence), urlopen url_api s)
          else get_response net url_api n (sleep 60 (print InvalidJson (urlopen url_api s)))
      | Json g \<Rightarrow>
          (case result g of
             None \<Rightarrow> get_response net url_api n (sleep 60 (print InvalidJson (urlopen url_api s)))
           | Some r \<Rightarrow> (Inr (Some (Dictionary g)), urlopen url_api s)))"

definition max_try :: nat where
  "max_try = 10"

text \<open>
  The body of \<^verbatim>\<open>for match in response_json['result']['matches']\<close>: the identifier is
  read first, the match is written when it is valid, and the sequence number is
  assigned whatever \<^verbatim>\<open>valid\<close> returned.
\<close>

fun process_matches :: "match_json list \<Rightarrow> miner \<Rightarrow> (error + unit) \<times> miner" where
  "process_matches [] s = (Inr (), s)"
| "process_matches (m # ms) s =
     (case match_id m of
        None \<Rightarrow> (Inl (KeyError ''match_id''), s)
      | Some i \<Rightarrow>
          (case valid m of
             Inl e \<Rightarrow> (Inl e, s)
           | Inr ok \<Rightarrow>
               (let s1 = (if ok then s\<lparr>out_file := out_file s @ [i]\<rparr> else s) in
                case match_seq_num m of
                  None \<Rightarrow> (Inl (KeyError ''match_seq_num''), s1)
                | Some q \<Rightarrow> process_matches ms (s1\<lparr>seq_num := q + 1\<rparr>))))"

text \<open>How a \<^verbatim>\<open>for\<close> loop is left: its range is used up, or a \<^verbatim>\<open>break\<close> is taken.\<close>

datatype loop_end = Finished | Broken

text \<open>
  The \<^verbatim>\<open>for i in range(chunks + 1)\<close> loop of \<^verbatim>\<open>run\<close>, over the indices still to come.
  \<^verbatim>\<open>if not response_json: break\<close> leaves the loop when \<^verbatim>\<open>get_response\<close> returned
  \<^verbatim>\<open>None\<close> (what it returns otherwise holds \<^verbatim>\<open>'result'\<close>, so it is not empty).
  \<^verbatim>\<open>response_json['result']\<close> raises on a list and on a string.
\<close>

fun run_loop :: "transport \<Rightarrow> int \<Rightarrow> int \<Rightarrow> int list \<Rightarrow> miner \<Rightarrow> (error + loop_end) \<times> miner" where
  "run_loop net chunks remainder [] s = (Inr Finished, s)"
| "run_loop net chunks remainder (i # rest) s =
     (case get_response net (get_url s (if i = chunks then remainder else 100)) max_try s of
        (Inl e, s1) \<Rightarrow> (Inl e, s1)
      | (Inr None, s1) \<Rightarrow> (Inr Broken, s1)
      | (Inr (Some Sequence), s1) \<Rightarrow> (Inl TypeError, s1)
      | (Inr (Some (Dictionary response_json)), s1) \<Rightarrow>
          (case result response_json of
             None \<Rightarrow> (Inl (KeyError ''result''), s1)
           | Some r \<Rightarrow>
               (case matches r of
                  None \<Rightarrow> (Inl (KeyError ''matches''), s1)
                | Some ms \<Rightarrow>
                    (case process_matches ms s1 of
                       (Inl e, s2) \<Rightarrow> (Inl e, s2)
                     | (Inr u, s2) \<Rightarrow>
                         run_loop net chunks remainder rest (print (Processed ((i + 1) * 100)) s2)))))"

text \<open>
  \<^verbatim>\<open>run\<close>: \<^verbatim>\<open>range(chunks + 1)\<close> is \<open>[0..chunks]\<close>, empty when \<open>chunks\<close> is negative.
  \<^verbatim>\<open>save_sequence_number\<close> is the statement after the loop, reached when the loop ends
  or breaks and not when an exception leaves \<^verbatim>\<open>run\<close>. There is no \<^verbatim>\<open>return\<close>.
\<close>

definition run :: "transport \<Rightarrow> miner \<Rightarrow> (error + py_value) \<times> miner" where
  "run net s =
     (let s0 = print (StartMining (seq_num s)) s;
          chunks = games_number s div 100;
          remainder = games_number s - chunks * 100
      in case run_loop net chunks remainder [0..chunks] s0 of
           (Inl e, s1) \<Rightarrow> (Inl e, s1)
         | (Inr how, s1) \<Rightarrow> (Inr PyNone, save_sequence_number s1))"

subsection \<open>Vocabulary for the statements\<close>

text \<open>
  The outcomes of a request after which \<^verbatim>\<open>get_response\<close> sleeps and tries again: a body
  that is not JSON, and a decoded dictionary, list or string without \<^verbatim>\<open>'result'\<close> in it.
\<close>

fun retried :: "raw_response \<Rightarrow> bool" where
  "retried UrlError = False"
| "retried NotJson = True"
| "retried JsonScalar = False"
| "retried (JsonSequence has_result) = (\<not> has_result)"
| "retried (Json g) = (result g = None)"

text \<open>
  The outcomes of a request on which \<^verbatim>\<open>get_response\<close> raises, with the exception: a
  request that fails, and a body that decodes to \<^verbatim>\<open>null\<close>, a number or a boolean.
\<close>

fun raised :: "raw_response \<Rightarrow> error option" where
  "raised UrlError = Some IOError"
| "raised JsonScalar = Some TypeError"
| "raised _ = None"

text \<open>
  A match that the loop over the matches processes without an exception: it has its
  identifier and its sequence number, and \<^verbatim>\<open>valid\<close> returns for it. A response is usable
  when it decodes to a dictionary with a result and a list of such matches.
\<close>

definition well_formed :: "match_json \<Rightarrow> bool" where
  "well_formed m =
     (match_id m \<noteq> None \<and> match_seq_num m \<noteq> None
      \<and> (case valid m of Inl e \<Rightarrow> False | Inr ok \<Rightarrow> True))"

fun usable :: "raw_response \<Rightarrow> bool" where
  "usable (Json g) =
     (case result g of
        None \<Rightarrow> False
      | Some r \<Rightarrow> (case matches r of None \<Rightarrow> False | Some ms \<Rightarrow> list_all well_formed ms))"
| "usable _ = False"

text \<open>The matches a response carries (none when it carries no list).\<close>

fun matches_of :: "raw_response \<Rightarrow> match_json list" where
  "matches_of (Json g) =
     (case result g of
        None \<Rightarrow> []
      | Some r \<Rightarrow> (case matches r of None \<Rightarrow> [] | Some ms \<Rightarrow> ms))"
| "matches_of _ = []"

text \<open>
  The matches a transport delivers in answer to a list of requests, in order, the first
  of them being request number \<open>j\<close> of the process.
\<close>

fun delivered_from :: "nat \<Rightarrow> transport \<Rightarrow> url list \<Rightarrow> match_json list" where
  "delivered_from j net [] = []"
| "delivered_from j net (u # us) = matches_of (net j u) @ delivered_from (Suc j) net us"

definition delivered :: "transport \<Rightarrow> url list \<Rightarrow> match_json list" where
  "delivered net us = delivered_from 0 net us"

text \<open>
  The matches delivered to the process between a state of the miner and a later one.
\<close>

definition delivered_since :: "miner \<Rightarrow> transport \<Rightarrow> miner \<Rightarrow> match_json list" where
  "delivered_since s net s' =
     delivered_from (length (requests s)) net (drop (length (requests s)) (requests s'))"

text \<open>The sequence numbers of a list of matches, in order.\<close>

definition seq_nums :: "match_json list \<Rightarrow> int list" where
  "seq_nums ms = List.map_filter match_seq_num ms"

text \<open>
  A transport honours the start of a request when no match it delivers has a sequence
  number below \<^verbatim>\<open>start_at_match_seq_num\<close>, which is what the parameter asks of the API.
\<close>

definition honours :: "transport \<Rightarrow> bool" where
  "honours net =
     (\<forall>j u. \<forall>q \<in> set (seq_nums (matches_of (net j u))). start_at_match_seq_num u \<le> q)"

text \<open>A response that decodes to a result with an empty list of matches.\<close>

definition empty_result :: raw_response where
  "empty_result = Json \<lparr>result = Some \<lparr>matches = Some []\<rparr>\<rparr>"

subsection \<open>Example inputs\<close>

text \<open>
  A match of ten players who all stayed (status 0), 1500 seconds long, with ten human
  players and game mode 22: \<^verbatim>\<open>valid\<close> accepts it. The second has a player with status 1,
  which \<^verbatim>\<open>valid\<close> rejects.
\<close>

definition plain_match :: "int \<Rightarrow> int \<Rightarrow> match_json" where
  "plain_match i q =
     \<lparr>players = Some (replicate 10 [''leaver_status'' \<mapsto> 0]), duration = Some 1500,
      human_players = Some 10, game_mode = Some 22, match_id = Some i,
      match_seq_num = Some q\<rparr>"

definition leaver_match :: "int \<Rightarrow> int \<Rightarrow> match_json" where
  "leaver_match i q =
     \<lparr>players = Some (replicate 9 [''leaver_status'' \<mapsto> 0] @ [[''leaver_status'' \<mapsto> 1]]),
      duration = Some 1500, human_players = Some 10, game_mode = Some 22,
      match_id = Some i, match_seq_num = Some q\<rparr>"

text \<open>A response that decodes to a result with the given list of matches.\<close>

definition batch :: "match_json list \<Rightarrow> raw_response" where
  "batch ms = Json \<lparr>result = Some \<lparr>matches = Some ms\<rparr>\<rparr>"

text \<open>
  The miner that \<^verbatim>\<open>SteamMiner(n, out_file, 'key')\<close> builds when the output file holds
  the lines \<open>out\<close> and \<^verbatim>\<open>seq_num.txt\<close> holds \<open>c\<close> (for \<open>n\<close> up to the limit).
\<close>

definition fresh_miner :: "int \<Rightarrow> int list \<Rightarrow> int \<Rightarrow> miner" where
  "fresh_miner n out c =
     \<lparr>games_number = n, out_file = out, api_key = ''key'', seq_num = c,
      seq_num_txt = Decimal c, requests = [], sleeps = [], stdout = []\<rparr>"

text \<open>
  Transports: one that answers every request with the same three matches, numbered 10
  to 12, the first with a leaver; one that answers with two valid matches numbered from
  the requested start; one that answers the first request with four matches numbered 10
  to 13 and has nothing more; one whose first three answers are not usable; one that
  answers the first request and then only sends bodies that are not JSON; one that
  answers the first request and then fails to connect; and one that answers the first
  request and then sends the body \<^verbatim>\<open>null\<close>.
\<close>

definition three_records :: transport where
  "three_records j u = batch [leaver_match 1 10, plain_match 2 11, plain_match 3 12]"

definition two_from_start :: transport where
  "two_from_start j u =
     batch [plain_match 4 (start_at_match_seq_num u),
            plain_match 5 (start_at_match_seq_num u + 1)]"

definition four_at_once :: transport where
  "four_at_once j u =
     (if j = 0
      then batch [plain_match 4 10, plain_match 5 11, plain_match 4 12, plain_match 5 13]
      else empty_result)"

definition flaky :: transport where
  "flaky j u =
     (if j = 0 then NotJson
      else if j = 1 then Json \<lparr>result = None\<rparr>
      else if j = 2 then JsonSequence False
      else batch [plain_match 1 (start_at_match_seq_num u)])"

definition one_then_garbage :: transport where
  "one_then_garbage j u =
     (if j = 0 then batch [leaver_match 1 10, plain_match 2 11, plain_match 3 12] else NotJson)"

definition one_then_down :: transport where
  "one_then_down j u =
     (if j = 0 then batch [leaver_match 1 10, plain_match 2 11, plain_match 3 12] else UrlError)"

definition one_then_null :: transport where
  "one_then_null j u =
     (if j = 0 then batch [leaver_match 1 10, plain_match 2 11, plain_match 3 12] else JsonScalar)"

text \<open>
  Two transports that never deliver a match below the requested start, with matches
  whose identifier is their sequence number: the first delivers the match two after the
  start and then the match at the start, the second the match at the start and then the
  next one.
\<close>

definition out_of_order :: transport where
  "out_of_order j u =
     batch [plain_match (start_at_match_seq_num u + 2) (start_at_match_seq_num u + 2),
            plain_match (start_at_match_seq_num u) (start_at_match_seq_num u)]"

definition in_order :: transport where
  "in_order j u =
     batch [plain_match (start_at_match_seq_num u) (start_at_match_seq_num u),
            plain_match (start_at_match_seq_num u + 1) (start_at_match_seq_num u + 1)]"

section \<open>Properties of the validity filter\<close>

lemma leaver_loop_iff:
  "leaver_loop ps = (\<exists>p \<in> set ps. dict_get p ''leaver_status'' 1 = 1)"
  by (induction ps) auto

lemma dict_get_absent: "p k = None \<Longrightarrow> dict_get p k dflt = dflt"
  by (simp add: dict_get_def)

lemma dict_get_present: "p k = Some v \<Longrightarrow> dict_get p k dflt = v"
  by (simp add: dict_get_def)

lemma valid_rejects_status_1:
  assumes "players m = Some ps" and "p \<in> set ps" and "p ''leaver_status'' = Some 1"
  shows "valid m = Inr False"
proof -
  have "dict_get p ''leaver_status'' 1 = 1"
    using assms(3) by (rule dict_get_present)
  with assms(2) have "leaver_loop ps"
    unfolding leaver_loop_iff by blast
  with assms(1) show ?thesis
    by (simp add: valid_def)
qed

text \<open>
  What the filter computes for a record that has the four keys it reads: the record is
  accepted when no player's status reads 1 (an absent status reads 1), the duration is
  at least 1200, there are ten human players and the game mode is 22.
\<close>

lemma valid_complete:
  assumes "players m = Some ps" and "duration m = Some d" and "human_players m = Some h"
    and "game_mode m = Some g"
  shows "valid m = Inr ((\<forall>p \<in> set ps. dict_get p ''leaver_status'' 1 \<noteq> 1)
                        \<and> 1200 \<le> d \<and> h = 10 \<and> g = 22)"
  using assms by (auto simp add: valid_def leaver_loop_iff MIN_DURATION_def)

text \<open>
  C1. The claim: a record in which some player's leaver status is anything other than
  the one code meaning "did not leave" is rejected by the filter. The loop of \<^verbatim>\<open>valid\<close>
  compares the status with 1 and rejects on equality, so every other status passes the
  loop: the record below has ten players, nine with status 0 and one with status 3 (two
  different codes, so at least one of them is not the did-not-leave code), lasts 1200
  seconds, has ten human players and game mode 22, and \<^verbatim>\<open>valid\<close> returns \<^verbatim>\<open>True\<close> for it.
\<close>

theorem valid_accepts_abandoning_player:
  "valid \<lparr>players = Some (replicate 9 [''leaver_status'' \<mapsto> 0] @ [[''leaver_status'' \<mapsto> 3]]),
          duration = Some 1200, human_players = Some 10, game_mode = Some 22,
          match_id = Some 7, match_seq_num = Some 70\<rparr> = Inr True"
  by (simp add: valid_def leaver_loop_iff dict_get_def MIN_DURATION_def)

text \<open>
  C10. A record whose \<^verbatim>\<open>players\<close> list holds an entry without the \<^verbatim>\<open>leaver_status\<close> key
  is rejected: \<^verbatim>\<open>player.get('leaver_status', 1)\<close> yields the default 1 for that entry,
  which is the value the loop rejects on.
\<close>

theorem valid_rejects_absent_leaver_status:
  assumes "players m = Some ps" and "p \<in> set ps" and "p ''leaver_status'' = None"
  shows "valid m = Inr False"
proof -
  have "dict_get p ''leaver_status'' 1 = 1"
    using assms(3) by (rule dict_get_absent)
  with assms(2) have "leaver_loop ps"
    unfolding leaver_loop_iff by blast
  with assms(1) show ?thesis
    by (simp add: valid_def)
qed

theorem valid_rejects_absent_leaver_status_witness:
  "valid \<lparr>players = Some [[''leaver_status'' \<mapsto> 0], Map.empty],
          duration = Some 3000, human_players = Some 10, game_mode = Some 22,
          match_id = Some 7, match_seq_num = Some 70\<rparr> = Inr False"
  using valid_rejects_absent_leaver_status
    [of "\<lparr>players = Some [[''leaver_status'' \<mapsto> 0], Map.empty],
          duration = Some 3000, human_players = Some 10, game_mode = Some 22,
          match_id = Some 7, match_seq_num = Some 70\<rparr>"
        "[[''leaver_status'' \<mapsto> 0], Map.empty]" Map.empty]
  by simp

text \<open>
  C7. The claim: the filter is total on a record without the \<^verbatim>\<open>players\<close> field and on
  one whose \<^verbatim>\<open>players\<close> list is empty, and treats both as having no leavers. For the
  missing field it fails: \<^verbatim>\<open>match_json['players']\<close> raises \<^verbatim>\<open>KeyError\<close>.
\<close>

theorem valid_missing_players_raises:
  "valid \<lparr>players = None, duration = Some 1200, human_players = Some 10,
          game_mode = Some 22, match_id = Some 7, match_seq_num = Some 70\<rparr>
   = Inl (KeyError ''players'')"
  by (simp add: valid_def)

text \<open>
  C7, as amended. A record whose \<^verbatim>\<open>players\<close> list is empty has no leavers: the filter
  decides it on duration, number of human players and game mode alone. A record without
  the \<^verbatim>\<open>players\<close> key makes the filter raise \<^verbatim>\<open>KeyError\<close>, as every other key
  that \<^verbatim>\<open>valid\<close> indexes does when it is absent.
\<close>

theorem valid_empty_players:
  "(players m = Some [] \<and> duration m = Some d \<and> human_players m = Some h \<and> game_mode m = Some g
      \<longrightarrow> valid m = Inr (1200 \<le> d \<and> h = 10 \<and> g = 22))
   \<and> (players m = None \<longrightarrow> valid m = Inl (KeyError ''players''))"
  by (auto simp add: valid_def MIN_DURATION_def)

theorem valid_empty_players_witness:
  "valid \<lparr>players = Some [], duration = Some 1500, human_players = Some 10,
          game_mode = Some 22, match_id = Some 7, match_seq_num = Some 70\<rparr> = Inr True
   \<and> valid \<lparr>players = Some [], duration = Some 1500, human_players = Some 9,
          game_mode = Some 22, match_id = Some 7, match_seq_num = Some 70\<rparr> = Inr False
   \<and> valid \<lparr>players = None, duration = Some 1500, human_players = Some 10,
          game_mode = Some 22, match_id = Some 7, match_seq_num = Some 70\<rparr>
       = Inl (KeyError ''players'')"
  using valid_empty_players [of "\<lparr>players = Some [], duration = Some 1500, human_players = Some 10,
          game_mode = Some 22, match_id = Some 7, match_seq_num = Some 70\<rparr>" 1500 10 22]
    valid_empty_players [of "\<lparr>players = Some [], duration = Some 1500, human_players = Some 9,
          game_mode = Some 22, match_id = Some 7, match_seq_num = Some 70\<rparr>" 1500 9 22]
    valid_empty_players [of "\<lparr>players = None, duration = Some 1500, human_players = Some 10,
          game_mode = Some 22, match_id = Some 7, match_seq_num = Some 70\<rparr>"]
  by simp

text \<open>
  C8. The claim: for every record with a duration below 1200 the filter returns
  \<^verbatim>\<open>False\<close>, and for a record with duration exactly 1200 that meets the other criteria
  it returns \<^verbatim>\<open>True\<close>. The first half fails on a record without the \<^verbatim>\<open>players\<close> key:
  \<^verbatim>\<open>valid\<close> reads \<^verbatim>\<open>match_json['players']\<close> before it looks at the duration, so for the
  record below, which lasts 600 seconds, it raises \<^verbatim>\<open>KeyError\<close> and returns nothing.
\<close>

theorem valid_short_without_players_raises:
  "valid \<lparr>players = None, duration = Some 600, human_players = Some 10,
          game_mode = Some 22, match_id = Some 7, match_seq_num = Some 70\<rparr>
   = Inl (KeyError ''players'')"
  by (simp add: valid_def)

text \<open>
  C8, as amended. A record that has its \<^verbatim>\<open>players\<close> list and a duration below 1200 is
  rejected, whatever its other fields; a record with such a duration and no \<^verbatim>\<open>players\<close>
  key makes the filter raise \<^verbatim>\<open>KeyError\<close>; so no record with a duration below 1200 is
  ever accepted. A record with duration exactly 1200 that meets the other criteria (a
  \<^verbatim>\<open>players\<close> list without a player whose status reads 1, ten human players, game mode
  22) is accepted.
\<close>

theorem valid_duration_threshold:
  "(players m = Some ps \<and> duration m = Some d \<and> d < 1200 \<longrightarrow> valid m = Inr False)
   \<and> (players m = None \<and> duration m = Some d \<and> d < 1200
      \<longrightarrow> valid m = Inl (KeyError ''players''))
   \<and> (duration m = Some d \<and> d < 1200 \<longrightarrow> valid m \<noteq> Inr True)
   \<and> (players m = Some ps \<and> (\<forall>p \<in> set ps. dict_get p ''leaver_status'' 1 \<noteq> 1)
        \<and> duration m = Some 1200 \<and> human_players m = Some 10 \<and> game_mode m = Some 22
      \<longrightarrow> valid m = Inr True)"
  by (auto simp add: valid_def leaver_loop_iff MIN_DURATION_def split: option.splits)

theorem valid_duration_threshold_witness:
  "valid \<lparr>players = Some (replicate 10 [''leaver_status'' \<mapsto> 0]), duration = Some 1199,
          human_players = Some 10, game_mode = Some 22, match_id = Some 7,
          match_seq_num = Some 70\<rparr> = Inr False
   \<and> valid \<lparr>players = None, duration = Some 1199, human_players = Some 10,
          game_mode = Some 22, match_id = Some 7, match_seq_num = Some 70\<rparr>
       = Inl (KeyError ''players'')
   \<and> valid \<lparr>players = Some (replicate 10 [''leaver_status'' \<mapsto> 0]), duration = Some 1200,
          human_players = Some 10, game_mode = Some 22, match_id = Some 7,
          match_seq_num = Some 70\<rparr> = Inr True"
  using valid_duration_threshold [of "\<lparr>players = Some (replicate 10 [''leaver_status'' \<mapsto> 0]),
          duration = Some 1199, human_players = Some 10, game_mode = Some 22, match_id = Some 7,
          match_seq_num = Some 70\<rparr>" "replicate 10 [''leaver_status'' \<mapsto> 0]" 1199]
    valid_duration_threshold [of "\<lparr>players = None, duration = Some 1199,
          human_players = Some 10, game_mode = Some 22, match_id = Some 7,
          match_seq_num = Some 70\<rparr>" "[]" 1199]
    valid_duration_threshold [of "\<lparr>players = Some (replicate 10 [''leaver_status'' \<mapsto> 0]),
          duration = Some 1200, human_players = Some 10, game_mode = Some 22, match_id = Some 7,
          match_seq_num = Some 70\<rparr>" "replicate 10 [''leaver_status'' \<mapsto> 0]" 1200]
  by (simp add: dict_get_def)

section \<open>The retry loop\<close>

text \<open>
  \<^verbatim>\<open>get_response\<close> changes nothing of the miner but the log of requests, of sleeps and
  of printed lines.
\<close>

lemma get_response_frame:
  "seq_num (snd (get_response net u n s)) = seq_num s
   \<and> out_file (snd (get_response net u n s)) = out_file s
   \<and> seq_num_txt (snd (get_response net u n s)) = seq_num_txt s
   \<and> games_number (snd (get_response net u n s)) = games_number s
   \<and> api_key (snd (get_response net u n s)) = api_key s"
  by (induction n arbitrary: s)
     (auto simp add: urlopen_def print_def sleep_def split: raw_response.splits option.splits)

text \<open>
  An attempt whose outcome is retried costs one request, one printed line and one sleep
  of 60, and leaves one iteration less.
\<close>

lemma get_response_retry:
  assumes "retried (net (length (requests s)) u)"
  shows "\<exists>l. get_response net u (Suc n) s
             = get_response net u n (sleep 60 (print l (urlopen u s)))"
proof (cases "net (length (requests s)) u")
  case UrlError
  with assms show ?thesis by simp
next
  case NotJson
  then show ?thesis by (intro exI [of _ CannotParse]) simp
next
  case JsonScalar
  with assms show ?thesis by simp
next
  case (JsonSequence has_result)
  with assms show ?thesis by (intro exI [of _ InvalidJson]) simp
next
  case (Json g)
  with assms show ?thesis by (intro exI [of _ InvalidJson]) simp
qed

lemma get_response_retries:
  assumes "\<forall>j<k. retried (net (length (requests s) + j) u)"
  shows "\<exists>t. get_response net u (k + m) s = get_response net u m t
    \<and> requests t = requests s @ replicate k u
    \<and> sleeps t = sleeps s @ replicate k 60"
  using assms
proof (induction k arbitrary: s)
  case 0
  show ?case by (intro exI [of _ s]) simp
next
  case (Suc k)
  have "retried (net (length (requests s)) u)"
    using Suc.prems by (metis add.right_neutral zero_less_Suc)
  from get_response_retry [where net = net and s = s and u = u and n = "k + m"] this
  obtain l where
    step: "get_response net u (Suc (k + m)) s
           = get_response net u (k + m) (sleep 60 (print l (urlopen u s)))"
    by blast
  let ?t = "sleep 60 (print l (urlopen u s))"
  have t: "requests ?t = requests s @ [u]" "sleeps ?t = sleeps s @ [60]"
    by (simp_all add: urlopen_def print_def sleep_def)
  have "\<forall>j<k. retried (net (length (requests ?t) + j) u)"
    using Suc.prems t(1) by (auto simp add: less_Suc_eq_0_disj)
  from Suc.IH [OF this] obtain t' where
    t': "get_response net u (k + m) ?t = get_response net u m t'"
      "requests t' = requests ?t @ replicate k u"
      "sleeps t' = sleeps ?t @ replicate k 60"
    by blast
  have "get_response net u (Suc k + m) s = get_response net u m t'"
    using step t'(1) by simp
  moreover have "requests t' = requests s @ replicate (Suc k) u"
    using t'(2) t(1) by simp
  moreover have "sleeps t' = sleeps s @ replicate (Suc k) 60"
    using t'(3) t(2) by simp
  ultimately show ?case by blast
qed

lemma get_response_exhausted:
  assumes "\<forall>j<n. retried (net (length (requests s) + j) u)"
  shows "fst (get_response net u n s) = Inr None
   \<and> requests (snd (get_response net u n s)) = requests s @ replicate n u
   \<and> sleeps (snd (get_response net u n s)) = sleeps s @ replicate n 60"
  using get_response_retries [where k = n and m = 0 and net = net and s = s and u = u] assms
  by auto

text \<open>
  After \<open>k\<close> retried attempts, with an iteration left, the next outcome decides: a
  dictionary with \<^verbatim>\<open>'result'\<close> is returned, and so is a list or a string with
  \<^verbatim>\<open>'result'\<close> in it; a failing request and a scalar body raise.
\<close>

lemma get_response_succeeds_after:
  assumes "\<forall>j<k. retried (net (length (requests s) + j) u)" and "k < n"
    and "net (length (requests s) + k) u = Json g" and "result g = Some r"
  shows "fst (get_response net u n s) = Inr (Some (Dictionary g))
   \<and> requests (snd (get_response net u n s)) = requests s @ replicate (Suc k) u
   \<and> sleeps (snd (get_response net u n s)) = sleeps s @ replicate k 60"
proof -
  from assms(2) have "n = k + Suc (n - Suc k)"
    by simp
  then obtain m where n: "n = k + Suc m" ..
  from get_response_retries [where k = k and m = "Suc m" and net = net and s = s and u = u]
    assms(1) obtain t where
    t: "get_response net u (k + Suc m) s = get_response net u (Suc m) t"
      "requests t = requests s @ replicate k u" "sleeps t = sleeps s @ replicate k 60"
    by blast
  have "net (length (requests t)) u = Json g"
    using assms(3) t(2) by simp
  then have step: "get_response net u (Suc m) t = (Inr (Some (Dictionary g)), urlopen u t)"
    using assms(4) by simp
  have "get_response net u n s = (Inr (Some (Dictionary g)), urlopen u t)"
    unfolding n t(1) by (rule step)
  moreover have "requests (urlopen u t) = requests s @ replicate (Suc k) u"
    using t(2) by (simp add: urlopen_def replicate_append_same)
  moreover have "sleeps (urlopen u t) = sleeps s @ replicate k 60"
    using t(3) by (simp add: urlopen_def)
  ultimately show ?thesis by simp
qed

lemma get_response_raises_after:
  assumes "\<forall>j<k. retried (net (length (requests s) + j) u)" and "k < n"
    and "raised (net (length (requests s) + k) u) = Some e"
  shows "fst (get_response net u n s) = Inl e
   \<and> requests (snd (get_response net u n s)) = requests s @ replicate (Suc k) u
   \<and> sleeps (snd (get_response net u n s)) = sleeps s @ replicate k 60"
proof -
  from assms(2) have "n = k + Suc (n - Suc k)"
    by simp
  then obtain m where n: "n = k + Suc m" ..
  from get_response_retries [where k = k and m = "Suc m" and net = net and s = s and u = u]
    assms(1) obtain t where
    t: "get_response net u (k + Suc m) s = get_response net u (Suc m) t"
      "requests t = requests s @ replicate k u" "sleeps t = sleeps s @ replicate k 60"
    by blast
  have "raised (net (length (requests t)) u) = Some e"
    using assms(3) t(2) by simp
  then have step: "get_response net u (Suc m) t = (Inl e, urlopen u t)"
    by (cases "net (length (requests t)) u") auto
  have "get_response net u n s = (Inl e, urlopen u t)"
    unfolding n t(1) by (rule step)
  moreover have "requests (urlopen u t) = requests s @ replicate (Suc k) u"
    using t(2) by (simp add: urlopen_def replicate_append_same)
  moreover have "sleeps (urlopen u t) = sleeps s @ replicate k 60"
    using t(3) by (simp add: urlopen_def)
  ultimately show ?thesis by simp
qed

lemma get_response_first:
  "net (length (requests s)) u = Json g \<Longrightarrow> result g = Some r \<Longrightarrow>
   get_response net u max_try s = (Inr (Some (Dictionary g)), urlopen u s)"
  by (simp add: max_try_def numeral_eq_Suc)

text \<open>
  What a call of \<^verbatim>\<open>get_response\<close> that returns has received: the matches of the
  dictionary it returns, and nothing from the attempts before it.
\<close>

lemma delivered_from_append:
  "delivered_from j net (us @ vs) =
   delivered_from j net us @ delivered_from (j + length us) net vs"
  by (induction us arbitrary: j) auto

lemma get_response_delivered:
  "get_response net u n s = (Inr r, s1) \<Longrightarrow>
   \<exists>new. requests s1 = requests s @ new \<and> set new \<subseteq> {u}
     \<and> delivered_from (length (requests s)) net new
        = (case r of Some (Dictionary g) \<Rightarrow> matches_of (Json g) | _ \<Rightarrow> [])"
proof (induction n arbitrary: s)
  case 0
  then show ?case by auto
next
  case (Suc n)
  let ?r = "net (length (requests s)) u"
  let ?got = "case r of Some (Dictionary g) \<Rightarrow> matches_of (Json g) | _ \<Rightarrow> []"
  show ?case
  proof (cases "retried ?r")
    case True
    then have none: "matches_of ?r = []"
      by (cases ?r) auto
    from get_response_retry [where net = net and s = s and u = u and n = n] True
    obtain l where
      step: "get_response net u (Suc n) s = get_response net u n (sleep 60 (print l (urlopen u s)))"
      by blast
    let ?t = "sleep 60 (print l (urlopen u s))"
    have t: "requests ?t = requests s @ [u]"
      by (simp add: urlopen_def print_def sleep_def)
    from Suc.prems step have "get_response net u n ?t = (Inr r, s1)" by simp
    from Suc.IH [OF this] obtain new where
      new: "requests s1 = requests ?t @ new" "set new \<subseteq> {u}"
        "delivered_from (length (requests ?t)) net new = ?got"
      by blast
    have "requests s1 = requests s @ (u # new)"
      using new(1) t by simp
    moreover have "set (u # new) \<subseteq> {u}" using new(2) by simp
    moreover have "delivered_from (length (requests s)) net (u # new) = ?got"
      using new(3) t none by simp
    ultimately show ?thesis by blast
  next
    case False
    have one: "requests (urlopen u s) = requests s @ [u]" "set [u] \<subseteq> {u}"
      by (simp_all add: urlopen_def)
    show ?thesis
    proof (cases ?r)
      case UrlError
      with Suc.prems show ?thesis by simp
    next
      case NotJson
      with False show ?thesis by simp
    next
      case JsonScalar
      with Suc.prems show ?thesis by simp
    next
      case (JsonSequence has_result)
      with False Suc.prems have "r = Some Sequence" "s1 = urlopen u s" by auto
      with one JsonSequence have "requests s1 = requests s @ [u]" "set [u] \<subseteq> {u}"
        "delivered_from (length (requests s)) net [u] = ?got"
        by simp_all
      then show ?thesis by blast
    next
      case (Json g)
      with False obtain r' where r': "result g = Some r'" by auto
      with Json Suc.prems have "r = Some (Dictionary g)" "s1 = urlopen u s" by auto
      with one Json have "requests s1 = requests s @ [u]" "set [u] \<subseteq> {u}"
        "delivered_from (length (requests s)) net [u] = ?got"
        by simp_all
      then show ?thesis by blast
    qed
  qed
qed

lemma get_response_requests:
  "\<exists>new. requests (snd (get_response net u n s)) = requests s @ new \<and> set new \<subseteq> {u}"
proof (induction n arbitrary: s)
  case 0
  then show ?case by auto
next
  case (Suc n)
  let ?r = "net (length (requests s)) u"
  have one: "\<exists>new. requests (urlopen u s) = requests s @ new \<and> set new \<subseteq> {u}"
    by (rule exI [of _ "[u]"]) (simp add: urlopen_def)
  have more: "\<exists>new. requests (snd (get_response net u n (sleep 60 (print l (urlopen u s)))))
                 = requests s @ new \<and> set new \<subseteq> {u}" for l
  proof -
    let ?t = "sleep 60 (print l (urlopen u s))"
    from Suc.IH [of ?t] obtain new where
      "requests (snd (get_response net u n ?t)) = requests ?t @ new" "set new \<subseteq> {u}"
      by blast
    then have "requests (snd (get_response net u n ?t)) = requests s @ (u # new)
               \<and> set (u # new) \<subseteq> {u}"
      by (simp add: urlopen_def print_def sleep_def)
    then show ?thesis by blast
  qed
  show ?case
    using one more by (cases ?r) (auto split: option.splits)
qed

section \<open>The loop over the matches of a response\<close>

lemma seq_nums_Nil: "seq_nums [] = []"
  by (simp add: seq_nums_def map_filter_simps)

lemma seq_nums_Cons_Some: "match_seq_num m = Some q \<Longrightarrow> seq_nums (m # ms) = q # seq_nums ms"
  by (simp add: seq_nums_def map_filter_simps)

lemma seq_nums_append: "seq_nums (xs @ ys) = seq_nums xs @ seq_nums ys"
  by (simp add: seq_nums_def map_filter_def)

lemma process_matches_frame:
  "requests (snd (process_matches ms s)) = requests s
   \<and> sleeps (snd (process_matches ms s)) = sleeps s
   \<and> stdout (snd (process_matches ms s)) = stdout s
   \<and> seq_num_txt (snd (process_matches ms s)) = seq_num_txt s
   \<and> games_number (snd (process_matches ms s)) = games_number s
   \<and> api_key (snd (process_matches ms s)) = api_key s"
  by (induction ms arbitrary: s) (auto simp add: Let_def split: option.splits sum.splits)

lemma process_matches_cursor:
  "process_matches ms s = (Inr u, s') \<Longrightarrow>
   seq_num s' = last (seq_num s # map (\<lambda>q. q + 1) (seq_nums ms))
   \<and> length (seq_nums ms) = length ms"
proof (induction ms arbitrary: s)
  case Nil
  then show ?case by (simp add: seq_nums_Nil)
next
  case (Cons m ms)
  from Cons.prems obtain i ok q where
    m: "match_id m = Some i" "valid m = Inr ok" "match_seq_num m = Some q"
    by (auto simp add: Let_def split: option.splits sum.splits)
  let ?t = "(if ok then s\<lparr>out_file := out_file s @ [i]\<rparr> else s)\<lparr>seq_num := q + 1\<rparr>"
  from Cons.prems m have "process_matches ms ?t = (Inr u, s')"
    by (simp add: Let_def)
  from Cons.IH [OF this] show ?case
    by (simp add: seq_nums_Cons_Some [OF m(3)])
qed

lemma process_matches_lower:
  "\<forall>q \<in> set (seq_nums ms). c \<le> q \<Longrightarrow> c \<le> seq_num s \<Longrightarrow>
   c \<le> seq_num (snd (process_matches ms s))"
proof (induction ms arbitrary: s)
  case Nil
  then show ?case by simp
next
  case (Cons m ms)
  show ?case
  proof (cases "match_seq_num m")
    case None
    with Cons.prems(2) show ?thesis
      by (auto simp add: Let_def split: option.splits sum.splits)
  next
    case (Some q)
    with Cons.prems(1) have q: "c \<le> q" and rest: "\<forall>q \<in> set (seq_nums ms). c \<le> q"
      by (simp_all add: seq_nums_Cons_Some)
    have "c \<le> seq_num (snd (process_matches ms (t\<lparr>seq_num := q + 1\<rparr>)))" for t
      using Cons.IH [OF rest, of "t\<lparr>seq_num := q + 1\<rparr>"] q by simp
    with Some Cons.prems(2) show ?thesis
      by (auto simp add: Let_def split: option.splits sum.splits)
  qed
qed

section \<open>The loop over the batches\<close>

text \<open>
  An invariant of the miner that every request, every processed response and every
  printed line keeps is kept by the loop, however it ends.
\<close>

lemma run_loop_invariant:
  assumes start: "P s"
    and request: "\<And>s n. P s \<Longrightarrow> P (snd (get_response net (get_url s n) max_try s))"
    and batch: "\<And>s n g r ms s1. P s \<Longrightarrow>
        get_response net (get_url s n) max_try s = (Inr (Some (Dictionary g)), s1) \<Longrightarrow>
        result g = Some r \<Longrightarrow> matches r = Some ms \<Longrightarrow> P (snd (process_matches ms s1))"
    and printed: "\<And>s l. P s \<Longrightarrow> P (print l s)"
  shows "P (snd (run_loop net c r is s))"
  using start
proof (induction "is" arbitrary: s)
  case Nil
  then show ?case by simp
next
  case (Cons i rest)
  let ?n = "if i = c then r else 100"
  obtain a s1 where g: "get_response net (get_url s ?n) max_try s = (a, s1)"
    by (cases "get_response net (get_url s ?n) max_try s")
  have s1: "P s1"
    using request [OF Cons.prems, of ?n] g by simp
  show ?case
  proof (cases a)
    case (Inl e)
    with g s1 show ?thesis by simp
  next
    case (Inr ro)
    show ?thesis
    proof (cases ro)
      case None
      with Inr g s1 show ?thesis by simp
    next
      case (Some got)
      show ?thesis
      proof (cases got)
        case Sequence
        with Inr Some g s1 show ?thesis by simp
      next
        case (Dictionary gj)
        note g' = g [unfolded Inr Some Dictionary]
        show ?thesis
        proof (cases "result gj")
          case None
          with g' s1 show ?thesis by simp
        next
          case rj: (Some rj)
          show ?thesis
          proof (cases "matches rj")
            case None
            with g' rj s1 show ?thesis by simp
          next
            case ms: (Some ms)
            obtain b s2 where pm: "process_matches ms s1 = (b, s2)"
              by (cases "process_matches ms s1")
            have s2: "P s2"
              using batch [OF Cons.prems g' rj ms] pm by simp
            show ?thesis
            proof (cases b)
              case (Inl e)
              with g' rj ms pm s2 show ?thesis by simp
            next
              case (Inr u)
              have "P (snd (run_loop net c r rest (print (Processed ((i + 1) * 100)) s2)))"
                by (rule Cons.IH [OF printed [OF s2]])
              with Inr g' rj ms pm show ?thesis by simp
            qed
          qed
        qed
      qed
    qed
  qed
qed

lemma run_loop_frame:
  "seq_num_txt (snd (run_loop net c r is s)) = seq_num_txt s
   \<and> games_number (snd (run_loop net c r is s)) = games_number s
   \<and> api_key (snd (run_loop net c r is s)) = api_key s"
proof -
  let ?P = "\<lambda>t::miner. seq_num_txt t = seq_num_txt s \<and> games_number t = games_number s
                \<and> api_key t = api_key s"
  have "?P (snd (run_loop net c r is s))"
  proof (rule run_loop_invariant [where P = ?P])
    show "?P s" by simp
  next
    fix t n assume "?P t"
    then show "?P (snd (get_response net (get_url t n) max_try t))"
      by (simp add: get_response_frame)
  next
    fix t n g rj ms s1
    assume "?P t" and "get_response net (get_url t n) max_try t = (Inr (Some (Dictionary g)), s1)"
    then have "?P s1"
      using get_response_frame [of net "get_url t n" max_try t] by simp
    then show "?P (snd (process_matches ms s1))"
      by (simp add: process_matches_frame)
  next
    fix t l assume "?P t"
    then show "?P (print l t)" by (simp add: print_def)
  qed
  then show ?thesis .
qed

lemma run_loop_append:
  "run_loop net c r (xs @ ys) s =
   (case run_loop net c r xs s of
      (Inr Finished, s1) \<Rightarrow> run_loop net c r ys s1
    | other \<Rightarrow> other)"
proof (induction xs arbitrary: s)
  case Nil
  then show ?case by simp
next
  case (Cons i xs)
  let ?u = "get_url s (if i = c then r else 100)"
  obtain a s1 where g: "get_response net ?u max_try s = (a, s1)"
    by (cases "get_response net ?u max_try s")
  show ?case
  proof (cases a)
    case (Inl e)
    with g show ?thesis by simp
  next
    case (Inr ro)
    show ?thesis
    proof (cases ro)
      case None
      with Inr g show ?thesis by simp
    next
      case (Some got)
      show ?thesis
      proof (cases got)
        case Sequence
        with Inr Some g show ?thesis by simp
      next
        case (Dictionary gj)
        with Inr Some g Cons.IH show ?thesis
          by (simp split: option.splits prod.splits sum.splits)
      qed
    qed
  qed
qed

lemma honours_delivered:
  assumes "honours net" and "\<forall>u \<in> set us. c \<le> start_at_match_seq_num u"
  shows "\<forall>q \<in> set (seq_nums (delivered_from j net us)). c \<le> q"
  using assms(2)
proof (induction us arbitrary: j)
  case Nil
  then show ?case by (simp add: seq_nums_Nil)
next
  case (Cons u us)
  have "\<forall>q \<in> set (seq_nums (matches_of (net j u))). start_at_match_seq_num u \<le> q"
    using assms(1) by (simp add: honours_def)
  moreover have "c \<le> start_at_match_seq_num u"
    using Cons.prems by simp
  ultimately have "\<forall>q \<in> set (seq_nums (matches_of (net j u))). c \<le> q"
    by fastforce
  moreover have "\<forall>q \<in> set (seq_nums (delivered_from (Suc j) net us)). c \<le> q"
    using Cons.IH Cons.prems by simp
  ultimately show ?case
    by (auto simp add: seq_nums_append)
qed

lemma run_loop_lower:
  assumes "honours net" and "c \<le> seq_num s"
    and "\<forall>u \<in> set (requests s). c \<le> start_at_match_seq_num u"
  shows "c \<le> seq_num (snd (run_loop net ch r is s))
    \<and> (\<forall>u \<in> set (requests (snd (run_loop net ch r is s))). c \<le> start_at_match_seq_num u)"
proof -
  let ?P = "\<lambda>t::miner. c \<le> seq_num t \<and> (\<forall>u \<in> set (requests t). c \<le> start_at_match_seq_num u)"
  have after_request: "?P (snd (get_response net (get_url t n) max_try t))"
    if "?P t" for t n
  proof -
    obtain new where
      "requests (snd (get_response net (get_url t n) max_try t)) = requests t @ new"
      "set new \<subseteq> {get_url t n}"
      using get_response_requests [of net "get_url t n" max_try t] by blast
    moreover have "start_at_match_seq_num (get_url t n) = seq_num t"
      by (simp add: get_url_def)
    ultimately show ?thesis
      using that get_response_frame [of net "get_url t n" max_try t] by auto
  qed
  have "?P (snd (run_loop net ch r is s))"
  proof (rule run_loop_invariant [where P = ?P])
    show "?P s" using assms(2,3) by simp
  next
    fix t n assume "?P t"
    then show "?P (snd (get_response net (get_url t n) max_try t))"
      by (rule after_request)
  next
    fix t n g rj ms s1
    assume t: "?P t"
      and g: "get_response net (get_url t n) max_try t = (Inr (Some (Dictionary g)), s1)"
      and rj: "result g = Some rj" and ms: "matches rj = Some ms"
    have s1: "?P s1"
      using after_request [OF t, of n] g by simp
    obtain new where new: "requests s1 = requests t @ new" "set new \<subseteq> {get_url t n}"
      "delivered_from (length (requests t)) net new = matches_of (Json g)"
      using get_response_delivered [OF g] by auto
    have "\<forall>u \<in> set new. c \<le> start_at_match_seq_num u"
      using new(1) s1 by simp
    from honours_delivered [OF assms(1) this, of "length (requests t)"]
    have "\<forall>q \<in> set (seq_nums ms). c \<le> q"
      using new(3) rj ms by simp
    then have "c \<le> seq_num (snd (process_matches ms s1))"
      using s1 by (simp add: process_matches_lower)
    then show "?P (snd (process_matches ms s1))"
      using s1 by (simp add: process_matches_frame)
  next
    fix t l assume "?P t"
    then show "?P (print l t)" by (simp add: print_def)
  qed
  then show ?thesis .
qed

lemma last_cursor_append:
  "last (c # map f (xs @ ys)) = last (last (c # map f xs) # map f ys)"
  by (cases ys) simp_all

lemma run_loop_cursor:
  "run_loop net c r is s = (Inr how, s') \<Longrightarrow>
   \<exists>new. requests s' = requests s @ new
     \<and> seq_num s' = last (seq_num s # map (\<lambda>q. q + 1)
          (seq_nums (delivered_from (length (requests s)) net new)))
     \<and> length (seq_nums (delivered_from (length (requests s)) net new))
        = length (delivered_from (length (requests s)) net new)"
proof (induction "is" arbitrary: s)
  case Nil
  then have "requests s' = requests s @ []" "seq_num s' = seq_num s" by simp_all
  then show ?case
    by (intro exI [of _ "[]"]) (simp add: seq_nums_Nil)
next
  case (Cons i rest)
  let ?u = "get_url s (if i = c then r else 100)"
  let ?j = "length (requests s)"
  obtain a s1 where g: "get_response net ?u max_try s = (a, s1)"
    by (cases "get_response net ?u max_try s")
  from Cons.prems g obtain ro where a: "a = Inr ro"
    by (cases a) auto
  note g' = g [unfolded a]
  from get_response_delivered [OF g'] obtain new1 where
    new1: "requests s1 = requests s @ new1"
      "delivered_from ?j net new1
       = (case ro of Some (Dictionary g) \<Rightarrow> matches_of (Json g) | _ \<Rightarrow> [])"
    by blast
  have cur1: "seq_num s1 = seq_num s"
    using get_response_frame [of net ?u max_try s] g' by simp
  show ?case
  proof (cases ro)
    case None
    with Cons.prems g' have "s' = s1" by simp
    with new1 cur1 None show ?thesis
      by (intro exI [of _ new1]) (simp add: seq_nums_Nil)
  next
    case (Some got)
    from Cons.prems g' Some obtain gj where got: "got = Dictionary gj"
      by (cases got) auto
    note g'' = g' [unfolded Some got]
    from Cons.prems g'' obtain rj where rj: "result gj = Some rj"
      by (cases "result gj") auto
    from Cons.prems g'' rj obtain ms where ms: "matches rj = Some ms"
      by (cases "matches rj") auto
    obtain b s2 where pm: "process_matches ms s1 = (b, s2)"
      by (cases "process_matches ms s1")
    from Cons.prems g'' rj ms pm obtain u where b: "b = Inr u"
      by (cases b) auto
    let ?t = "print (Processed ((i + 1) * 100)) s2"
    from Cons.prems g'' rj ms pm b have rest: "run_loop net c r rest ?t = (Inr how, s')"
      by simp
    have d1: "delivered_from ?j net new1 = ms"
      using new1(2) Some got rj ms by simp
    have cur2: "seq_num s2 = last (seq_num s # map (\<lambda>q. q + 1) (seq_nums ms))"
      and all2: "length (seq_nums ms) = length ms"
      using process_matches_cursor [OF pm [unfolded b]] cur1 by simp_all
    have req2: "requests ?t = requests s @ new1"
      using process_matches_frame [of ms s1] pm new1(1) by (simp add: print_def)
    have curt: "seq_num ?t = seq_num s2"
      by (simp add: print_def)
    from Cons.IH [OF rest] obtain new2 where
      new2: "requests s' = requests ?t @ new2"
        "seq_num s' = last (seq_num ?t # map (\<lambda>q. q + 1)
           (seq_nums (delivered_from (length (requests ?t)) net new2)))"
        "length (seq_nums (delivered_from (length (requests ?t)) net new2))
         = length (delivered_from (length (requests ?t)) net new2)"
      by blast
    let ?d2 = "delivered_from (?j + length new1) net new2"
    have len: "length (requests ?t) = ?j + length new1"
      using req2 by simp
    have whole: "delivered_from ?j net (new1 @ new2) = ms @ ?d2"
      by (simp add: delivered_from_append d1)
    have "requests s' = requests s @ (new1 @ new2)"
      using new2(1) req2 by simp
    moreover have "seq_num s' = last (seq_num s # map (\<lambda>q. q + 1)
          (seq_nums (delivered_from ?j net (new1 @ new2))))"
      using new2(2) unfolding len curt cur2 whole seq_nums_append
      by (simp only: last_cursor_append)
    moreover have "length (seq_nums (delivered_from ?j net (new1 @ new2)))
        = length (delivered_from ?j net (new1 @ new2))"
      using new2(3) all2 unfolding len whole seq_nums_append by simp
    ultimately show ?thesis by blast
  qed
qed

lemma run_loop_all_empty:
  assumes "\<forall>j u. net j u = empty_result"
  shows "run_loop net c r is s =
    (Inr Finished,
     s\<lparr>requests := requests s @ map (\<lambda>i. get_url s (if i = c then r else 100)) is,
       stdout := stdout s @ map (\<lambda>i. Processed ((i + 1) * 100)) is\<rparr>)"
proof (induction "is" arbitrary: s)
  case Nil
  then show ?case by simp
next
  case (Cons i rest)
  let ?u = "get_url s (if i = c then r else 100)"
  have "get_response net ?u max_try s
        = (Inr (Some (Dictionary \<lparr>result = Some \<lparr>matches = Some []\<rparr>\<rparr>)), urlopen ?u s)"
    using assms by (intro get_response_first) (simp_all add: empty_result_def)
  then have "run_loop net c r (i # rest) s
        = run_loop net c r rest (print (Processed ((i + 1) * 100)) (urlopen ?u s))"
    by simp
  also have "\<dots> = (Inr Finished,
     s\<lparr>requests := requests s @ map (\<lambda>i. get_url s (if i = c then r else 100)) (i # rest),
       stdout := stdout s @ map (\<lambda>i. Processed ((i + 1) * 100)) (i # rest)\<rparr>)"
    unfolding Cons.IH by (simp add: print_def urlopen_def get_url_def)
  finally show ?case .
qed

section \<open>Runs\<close>

lemma run_returns:
  assumes "run net s = (Inr v, s')"
  shows "\<exists>how s0. run_loop net (games_number s div 100)
            (games_number s - games_number s div 100 * 100) [0..games_number s div 100]
            (print (StartMining (seq_num s)) s) = (Inr how, s0)
          \<and> s' = save_sequence_number s0 \<and> v = PyNone"
  using assms
  by (auto simp add: run_def Let_def split: prod.splits sum.splits)

lemma run_snd:
  "seq_num (snd (run net s)) = seq_num (snd (run_loop net (games_number s div 100)
      (games_number s - games_number s div 100 * 100) [0..games_number s div 100]
      (print (StartMining (seq_num s)) s)))
   \<and> requests (snd (run net s)) = requests (snd (run_loop net (games_number s div 100)
      (games_number s - games_number s div 100 * 100) [0..games_number s div 100]
      (print (StartMining (seq_num s)) s)))"
  by (auto simp add: run_def Let_def save_sequence_number_def split: prod.splits sum.splits)

lemma run_all_empty:
  assumes "\<forall>j u. net j u = empty_result"
  shows "fst (run net s) = Inr PyNone
    \<and> requests (snd (run net s))
        = requests s @ map (\<lambda>i. get_url s (if i = games_number s div 100
                                   then games_number s - games_number s div 100 * 100
                                   else 100)) [0..games_number s div 100]
    \<and> stdout (snd (run net s))
        = stdout s @ StartMining (seq_num s)
            # map (\<lambda>i. Processed ((i + 1) * 100)) [0..games_number s div 100]
    \<and> sleeps (snd (run net s)) = sleeps s
    \<and> out_file (snd (run net s)) = out_file s
    \<and> seq_num (snd (run net s)) = seq_num s
    \<and> seq_num_txt (snd (run net s)) = Decimal (seq_num s)"
proof -
  let ?s0 = "print (StartMining (seq_num s)) s"
  let ?c = "games_number s div 100"
  let ?r = "games_number s - games_number s div 100 * 100"
  have "run net s = (Inr PyNone, save_sequence_number
      (?s0\<lparr>requests := requests ?s0 @ map (\<lambda>i. get_url ?s0 (if i = ?c then ?r else 100)) [0..?c],
           stdout := stdout ?s0 @ map (\<lambda>i. Processed ((i + 1) * 100)) [0..?c]\<rparr>))"
    using assms by (simp add: run_def Let_def run_loop_all_empty)
  then show ?thesis
    by (simp add: save_sequence_number_def print_def get_url_def)
qed

text \<open>
  The sizes of the requests of a run in which every response is an empty result: for a
  number of games that is not negative, \<open>games_number div 100\<close> requests of size 100
  followed by one request of size \<open>games_number mod 100\<close>, which is 0 for a multiple
  of 100; no request at all for a negative number.
\<close>

lemma map_upto_last:
  "0 \<le> c \<Longrightarrow> map (\<lambda>i. if i = c then r else (100::int)) [0..c] = replicate (nat c) 100 @ [r]"
proof -
  assume c: "0 \<le> c"
  have "map (\<lambda>i. if i = c then r else (100::int)) [0..c - 1] = map (\<lambda>i. 100) [0..c - 1]"
    by (rule map_cong) auto
  also have "\<dots> = replicate (nat c) 100"
    using c by (simp add: map_replicate_const)
  finally show ?thesis
    using c by (simp add: upto_rec2)
qed

lemma run_all_empty_sizes:
  assumes "\<forall>j u. net j u = empty_result" and "requests s = []"
  shows "map matches_requested (requests (snd (run net s)))
    = (if 0 \<le> games_number s
       then replicate (nat (games_number s div 100)) 100 @ [games_number s mod 100]
       else [])"
proof -
  let ?c = "games_number s div 100"
  let ?r = "games_number s - games_number s div 100 * 100"
  have "map matches_requested (requests (snd (run net s)))
      = map (\<lambda>i. if i = ?c then ?r else 100) [0..?c]"
    using run_all_empty [OF assms(1), of s] assms(2)
    by (simp add: get_url_def o_def if_distrib cong: if_cong)
  moreover have "?r = games_number s mod 100"
    by (simp add: minus_div_mult_eq_mod)
  moreover have "0 \<le> ?c \<longleftrightarrow> 0 \<le> games_number s"
    by (simp add: pos_imp_zdiv_nonneg_iff)
  ultimately show ?thesis
    by (simp add: map_upto_last)
qed

text \<open>
  When an exception leaves \<^verbatim>\<open>run\<close>, \<^verbatim>\<open>save_sequence_number\<close> is not reached and
  \<^verbatim>\<open>seq_num.txt\<close> keeps its content.
\<close>

lemma run_raises_unsaved:
  "fst (run net s) = Inl e \<Longrightarrow> seq_num_txt (snd (run net s)) = seq_num_txt s"
  using run_loop_frame [of net "games_number s div 100"
      "games_number s - games_number s div 100 * 100" "[0..games_number s div 100]"
      "print (StartMining (seq_num s)) s"]
  by (auto simp add: run_def Let_def print_def split: prod.splits sum.splits)

text \<open>
  The cursor at the end of a run that returns, for a miner that has sent nothing before:
  a function of the cursor at the start and of the records delivered, in order.
\<close>

lemma run_cursor:
  assumes "requests s = []" and "run net s = (Inr v, s')"
  shows "seq_num s' = last (seq_num s # map (\<lambda>q. q + 1) (seq_nums (delivered net (requests s'))))
    \<and> length (seq_nums (delivered net (requests s'))) = length (delivered net (requests s'))"
proof -
  from run_returns [OF assms(2)] obtain how s0 where
    loop: "run_loop net (games_number s div 100)
            (games_number s - games_number s div 100 * 100) [0..games_number s div 100]
            (print (StartMining (seq_num s)) s) = (Inr how, s0)"
    and s': "s' = save_sequence_number s0"
    by blast
  let ?s0 = "print (StartMining (seq_num s)) s"
  have s0: "requests ?s0 = []" "seq_num ?s0 = seq_num s"
    using assms(1) by (simp_all add: print_def)
  from run_loop_cursor [OF loop] obtain new where
    "requests s0 = requests ?s0 @ new"
    "seq_num s0 = last (seq_num ?s0 # map (\<lambda>q. q + 1)
       (seq_nums (delivered_from (length (requests ?s0)) net new)))"
    "length (seq_nums (delivered_from (length (requests ?s0)) net new))
     = length (delivered_from (length (requests ?s0)) net new)"
    by blast
  then show ?thesis
    using s0 s' by (simp add: save_sequence_number_def delivered_def)
qed

lemma SteamMiner_init_fresh:
  assumes "SteamMiner_init n out k f = Inr s"
  shows "requests s = [] \<and> get_starting_match_sequence_number f = Inr (seq_num s)"
  using assms by (auto simp add: SteamMiner_init_def split: sum.splits)

lemma sorted_last_Max:
  "sorted xs \<Longrightarrow> xs \<noteq> [] \<Longrightarrow> last xs = Max (set xs)"
proof (induction xs)
  case Nil
  then show ?case by simp
next
  case (Cons x xs)
  show ?case
  proof (cases "xs = []")
    case True
    then show ?thesis by simp
  next
    case False
    with Cons have "last xs = Max (set xs)" by simp
    moreover have "x \<le> Max (set xs)"
      using Cons.prems(1) False by (metis List.finite_set Max_ge last_in_set calculation
          order_refl sorted_simps(2))
    ultimately show ?thesis
      using False by (simp add: max_absorb2)
  qed
qed

text \<open>
  The cursor at the end of a run that returns, from any state of the miner: a function
  of the cursor at the start and of the records delivered during the run, in order.
\<close>

lemma run_cursor_since:
  assumes "run net s = (Inr v, s')"
  shows "seq_num s' = last (seq_num s # map (\<lambda>q. q + 1) (seq_nums (delivered_since s net s')))"
proof -
  from run_returns [OF assms] obtain how s0 where
    loop: "run_loop net (games_number s div 100)
            (games_number s - games_number s div 100 * 100) [0..games_number s div 100]
            (print (StartMining (seq_num s)) s) = (Inr how, s0)"
    and s': "s' = save_sequence_number s0"
    by blast
  let ?s0 = "print (StartMining (seq_num s)) s"
  have s0: "requests ?s0 = requests s" "seq_num ?s0 = seq_num s"
    by (simp_all add: print_def)
  from run_loop_cursor [OF loop] obtain new where
    "requests s0 = requests ?s0 @ new"
    "seq_num s0 = last (seq_num ?s0 # map (\<lambda>q. q + 1)
       (seq_nums (delivered_from (length (requests ?s0)) net new)))"
    by blast
  then show ?thesis
    using s0 s' by (simp add: save_sequence_number_def delivered_since_def)
qed

text \<open>
  A run over a transport whose every outcome is retried or usable raises nothing: each
  batch is processed or uses up its attempts, and \<^verbatim>\<open>run\<close> returns.
\<close>

lemma process_matches_well_formed:
  "list_all well_formed ms \<Longrightarrow> fst (process_matches ms s) = Inr ()"
  by (induction ms arbitrary: s)
     (auto simp add: well_formed_def Let_def split: option.splits sum.splits)

lemma get_response_benign:
  assumes "\<forall>j. retried (net j u) \<or> usable (net j u)"
  shows "fst (get_response net u n s) = Inr None
    \<or> (\<exists>g. fst (get_response net u n s) = Inr (Some (Dictionary g)) \<and> usable (Json g))"
proof (induction n arbitrary: s)
  case 0
  then show ?case by simp
next
  case (Suc n)
  let ?r = "net (length (requests s)) u"
  show ?case
  proof (cases "retried ?r")
    case True
    from get_response_retry [where net = net and s = s and u = u and n = n] True
    obtain l where "get_response net u (Suc n) s
        = get_response net u n (sleep 60 (print l (urlopen u s)))"
      by blast
    with Suc.IH [of "sleep 60 (print l (urlopen u s))"] show ?thesis
      by simp
  next
    case False
    with assms have use: "usable ?r" by blast
    then obtain g where g: "?r = Json g"
      by (cases ?r) auto
    with use obtain r where "result g = Some r"
      by (cases "result g") auto
    with g use show ?thesis by simp
  qed
qed

lemma run_loop_benign:
  assumes "\<forall>j u. retried (net j u) \<or> usable (net j u)"
  shows "\<exists>how. fst (run_loop net c r is s) = Inr how"
proof (induction "is" arbitrary: s)
  case Nil
  then show ?case by simp
next
  case (Cons i rest)
  let ?u = "get_url s (if i = c then r else 100)"
  obtain a s1 where got: "get_response net ?u max_try s = (a, s1)"
    by (cases "get_response net ?u max_try s")
  from get_response_benign [of net ?u max_try s] assms got
  consider "a = Inr None" | g where "a = Inr (Some (Dictionary g))" "usable (Json g)"
    by auto
  then show ?case
  proof cases
    case 1
    with got show ?thesis by simp
  next
    case 2
    from 2(2) obtain rj ms where rj: "result g = Some rj" and ms: "matches rj = Some ms"
      and wf: "list_all well_formed ms"
      by (auto split: option.splits)
    obtain s2 where pm: "process_matches ms s1 = (Inr (), s2)"
      using process_matches_well_formed [OF wf, of s1]
      by (cases "process_matches ms s1") auto
    from Cons.IH [of "print (Processed ((i + 1) * 100)) s2"] got 2(1) rj ms pm
    show ?thesis by simp
  qed
qed

lemma run_benign:
  assumes "\<forall>j u. retried (net j u) \<or> usable (net j u)"
  shows "fst (run net s) = Inr PyNone"
  using run_loop_benign [OF assms, of "games_number s div 100"
      "games_number s - games_number s div 100 * 100" "[0..games_number s div 100]"
      "print (StartMining (seq_num s)) s"]
  by (auto simp add: run_def Let_def split: prod.splits sum.splits)

text \<open>
  When every outcome is usable no attempt is repeated: every batch of the plan is asked
  for once, and the loop runs to its end.
\<close>

lemma run_loop_usable:
  assumes "\<forall>j u. usable (net j u)"
  shows "fst (run_loop net c r is s) = Inr Finished
    \<and> length (requests (snd (run_loop net c r is s))) = length (requests s) + length is"
proof (induction "is" arbitrary: s)
  case Nil
  then show ?case by simp
next
  case (Cons i rest)
  let ?u = "get_url s (if i = c then r else 100)"
  from assms have use: "usable (net (length (requests s)) ?u)" by blast
  then obtain g where g: "net (length (requests s)) ?u = Json g"
    by (cases "net (length (requests s)) ?u") auto
  with use obtain rj ms where rj: "result g = Some rj" and ms: "matches rj = Some ms"
    and wf: "list_all well_formed ms"
    by (auto split: option.splits)
  have got: "get_response net ?u max_try s = (Inr (Some (Dictionary g)), urlopen ?u s)"
    using g rj by (rule get_response_first)
  obtain s2 where pm: "process_matches ms (urlopen ?u s) = (Inr (), s2)"
    using process_matches_well_formed [OF wf, of "urlopen ?u s"]
    by (cases "process_matches ms (urlopen ?u s)") auto
  have "requests s2 = requests s @ [?u]"
    using process_matches_frame [of ms "urlopen ?u s"] pm by (simp add: urlopen_def)
  then have "length (requests (print (Processed ((i + 1) * 100)) s2)) = Suc (length (requests s))"
    by (simp add: print_def)
  with Cons.IH [of "print (Processed ((i + 1) * 100)) s2"] got rj ms pm show ?case
    by simp
qed

lemma run_usable:
  assumes "\<forall>j u. usable (net j u)"
  shows "fst (run net s) = Inr PyNone
    \<and> length (requests (snd (run net s)))
        = length (requests s) + nat (games_number s div 100 + 1)"
proof -
  let ?s0 = "print (StartMining (seq_num s)) s"
  from assms have "\<forall>j u. retried (net j u) \<or> usable (net j u)" by blast
  then have "fst (run net s) = Inr PyNone" by (rule run_benign)
  moreover have "length (requests (snd (run net s)))
      = length (requests ?s0) + length [0..games_number s div 100]"
    using run_loop_usable [OF assms, of "games_number s div 100"
        "games_number s - games_number s div 100 * 100" "[0..games_number s div 100]" ?s0]
    by (simp add: run_snd)
  ultimately show ?thesis
    by (simp add: print_def)
qed

text \<open>
  A batch of a run, reached after the batches before it were completed, whose first
  \<open>k\<close> attempts are retried: when \<open>k\<close> is ten the loop breaks and \<^verbatim>\<open>run\<close> returns,
  having saved the cursor; when the next attempt raises, \<^verbatim>\<open>run\<close> raises and
  \<^verbatim>\<open>seq_num.txt\<close> is as it was.
\<close>

lemma run_reaches:
  assumes "[0..games_number s div 100] = before @ i # rest"
    and "run_loop net (games_number s div 100) (games_number s - games_number s div 100 * 100)
           before (print (StartMining (seq_num s)) s) = (Inr Finished, s1)"
  shows "run net s =
    (case run_loop net (games_number s div 100) (games_number s - games_number s div 100 * 100)
            (i # rest) s1 of
       (Inl e, s2) \<Rightarrow> (Inl e, s2)
     | (Inr how, s2) \<Rightarrow> (Inr PyNone, save_sequence_number s2))"
  unfolding run_def Let_def assms(1)
  by (simp add: run_loop_append assms(2) del: run_loop.simps)

lemma run_exhausted:
  assumes "[0..games_number s div 100] = before @ i # rest"
    and "run_loop net (games_number s div 100) (games_number s - games_number s div 100 * 100)
           before (print (StartMining (seq_num s)) s) = (Inr Finished, s1)"
    and "\<forall>j<10. retried (net (length (requests s1) + j)
           (get_url s1 (if i = games_number s div 100
                        then games_number s - games_number s div 100 * 100 else 100)))"
  shows "fst (run net s) = Inr PyNone
    \<and> requests (snd (run net s))
        = requests s1 @ replicate 10 (get_url s1 (if i = games_number s div 100
                        then games_number s - games_number s div 100 * 100 else 100))
    \<and> sleeps (snd (run net s)) = sleeps s1 @ replicate 10 60
    \<and> out_file (snd (run net s)) = out_file s1
    \<and> seq_num (snd (run net s)) = seq_num s1
    \<and> seq_num_txt (snd (run net s)) = Decimal (seq_num s1)"
proof -
  let ?u = "get_url s1 (if i = games_number s div 100
                        then games_number s - games_number s div 100 * 100 else 100)"
  have "fst (get_response net ?u 10 s1) = Inr None
        \<and> requests (snd (get_response net ?u 10 s1)) = requests s1 @ replicate 10 ?u
        \<and> sleeps (snd (get_response net ?u 10 s1)) = sleeps s1 @ replicate 10 60"
    using assms(3) by (rule get_response_exhausted [of 10 net s1 ?u])
  then obtain s2 where g: "get_response net ?u max_try s1 = (Inr None, s2)"
    and s2: "requests s2 = requests s1 @ replicate 10 ?u" "sleeps s2 = sleeps s1 @ replicate 10 60"
    unfolding max_try_def by (cases "get_response net ?u 10 s1") auto
  have frame: "out_file s2 = out_file s1" "seq_num s2 = seq_num s1"
    using get_response_frame [of net ?u max_try s1] g by simp_all
  have "run_loop net (games_number s div 100) (games_number s - games_number s div 100 * 100)
      (i # rest) s1 = (Inr Broken, s2)"
    using g by simp
  with run_reaches [OF assms(1,2)] have "run net s = (Inr PyNone, save_sequence_number s2)"
    by simp
  then show ?thesis
    using s2 frame by (simp add: save_sequence_number_def)
qed

lemma run_raises:
  assumes "[0..games_number s div 100] = before @ i # rest"
    and "run_loop net (games_number s div 100) (games_number s - games_number s div 100 * 100)
           before (print (StartMining (seq_num s)) s) = (Inr Finished, s1)"
    and "\<forall>j<k. retried (net (length (requests s1) + j)
           (get_url s1 (if i = games_number s div 100
                        then games_number s - games_number s div 100 * 100 else 100)))"
    and "k < 10"
    and "raised (net (length (requests s1) + k)
           (get_url s1 (if i = games_number s div 100
                        then games_number s - games_number s div 100 * 100 else 100))) = Some e"
  shows "fst (run net s) = Inl e
    \<and> requests (snd (run net s))
        = requests s1 @ replicate (Suc k) (get_url s1 (if i = games_number s div 100
                        then games_number s - games_number s div 100 * 100 else 100))
    \<and> sleeps (snd (run net s)) = sleeps s1 @ replicate k 60
    \<and> seq_num (snd (run net s)) = seq_num s1
    \<and> seq_num_txt (snd (run net s)) = seq_num_txt s"
proof -
  let ?u = "get_url s1 (if i = games_number s div 100
                        then games_number s - games_number s div 100 * 100 else 100)"
  have "fst (get_response net ?u 10 s1) = Inl e
        \<and> requests (snd (get_response net ?u 10 s1)) = requests s1 @ replicate (Suc k) ?u
        \<and> sleeps (snd (get_response net ?u 10 s1)) = sleeps s1 @ replicate k 60"
    using assms(3,4,5) by (rule get_response_raises_after [of k net s1 ?u 10 e])
  then obtain s2 where g: "get_response net ?u max_try s1 = (Inl e, s2)"
    and s2: "requests s2 = requests s1 @ replicate (Suc k) ?u"
      "sleeps s2 = sleeps s1 @ replicate k 60"
    unfolding max_try_def by (cases "get_response net ?u 10 s1") auto
  have frame: "seq_num s2 = seq_num s1"
    using get_response_frame [of net ?u max_try s1] g by simp
  have "run_loop net (games_number s div 100) (games_number s - games_number s div 100 * 100)
      (i # rest) s1 = (Inl e, s2)"
    using g by simp
  with run_reaches [OF assms(1,2)] have run: "run net s = (Inl e, s2)"
    by simp
  then have "fst (run net s) = Inl e" by simp
  from run_raises_unsaved [OF this] run s2 frame show ?thesis
    by simp
qed

text \<open>Facts for evaluating the miner on the example inputs.\<close>

lemma fresh_miner_init:
  "n \<le> 10000000 \<Longrightarrow> SteamMiner_init n out ''key'' (Decimal c) = Inr (fresh_miner n out c)"
  by (simp add: SteamMiner_init_def get_starting_match_sequence_number_def fresh_miner_def
      NUM_GAME_LIMIT_def)

lemma plain_match_sel:
  "match_id (plain_match i q) = Some i" "match_seq_num (plain_match i q) = Some q"
  "valid (plain_match i q) = Inr True"
  by (simp_all add: valid_def plain_match_def leaver_loop_iff dict_get_def MIN_DURATION_def)

lemma leaver_match_sel:
  "match_id (leaver_match i q) = Some i" "match_seq_num (leaver_match i q) = Some q"
  "valid (leaver_match i q) = Inr False"
  by (simp_all add: valid_def leaver_match_def leaver_loop_iff dict_get_def MIN_DURATION_def)

lemmas run_eval = run_def Let_def fresh_miner_def empty_result_def batch_def
  get_response_first print_def urlopen_def sleep_def get_url_def save_sequence_number_def
  upto.simps plain_match_sel leaver_match_sel

section \<open>The cursor across runs\<close>

text \<open>
  C2. The claim: on every path on which \<^verbatim>\<open>run\<close> ends (all batches issued, attempts
  used up) the final cursor is persisted, so that a second run started from the
  persisted cursor never processes again a sequence number the first run advanced past.
  The first half holds. The second does not follow: the cursor is the number of the last
  record plus one, so a first run that is delivered the records 12 and 10, in this
  order, persists 11, and a second run started from 11, over a transport that delivers
  nothing below the requested start, is delivered 11 and 12 and writes the identifier of
  record 12 a second time.
\<close>

theorem second_run_reprocesses:
  "run out_of_order (fresh_miner 2 [] 10)
   = (Inr PyNone,
      \<lparr>games_number = 2, out_file = [12, 10], api_key = ''key'', seq_num = 11,
       seq_num_txt = Decimal 11,
       requests = [\<lparr>key = ''key'', start_at_match_seq_num = 10, matches_requested = 2\<rparr>],
       sleeps = [],
       stdout = [StartMining 10, Processed 100]\<rparr>)
   \<and> SteamMiner_init 2 [12, 10] ''key'' (Decimal 11) = Inr (fresh_miner 2 [12, 10] 11)
   \<and> honours in_order
   \<and> run in_order (fresh_miner 2 [12, 10] 11)
   = (Inr PyNone,
      \<lparr>games_number = 2, out_file = [12, 10, 11, 12], api_key = ''key'', seq_num = 13,
       seq_num_txt = Decimal 13,
       requests = [\<lparr>key = ''key'', start_at_match_seq_num = 11, matches_requested = 2\<rparr>],
       sleeps = [],
       stdout = [StartMining 11, Processed 100]\<rparr>)"
proof -
  have "honours in_order"
    by (simp add: honours_def in_order_def batch_def seq_nums_Cons_Some seq_nums_Nil
        plain_match_sel)
  then show ?thesis
    by (simp add: run_eval out_of_order_def in_order_def fresh_miner_init)
qed

text \<open>
  C2, as amended. Whenever \<^verbatim>\<open>run\<close> returns, \<^verbatim>\<open>seq_num.txt\<close> holds the final value of
  \<^verbatim>\<open>self.seq_num\<close>, and reading the file back gives that value. And \<^verbatim>\<open>run\<close> does return
  on the paths without an exception: over a transport whose every outcome is retried or
  usable it returns with the cursor saved; when every outcome is usable it does so after
  asking once for each batch of its plan; and when the ten attempts for a batch are used
  up, after the batches before it were completed, it returns with the cursor those
  batches reached saved. A second miner built from the file starts at the persisted
  cursor, and when its transport honours the start of each request, every request it
  sends starts at or after the persisted cursor, every sequence number it is delivered
  is at or after it, and its cursor never falls below it. The numbers below the
  persisted cursor include every sequence number the first run processed when its
  records came in ascending order of sequence number; without that order they need not.
\<close>

theorem run_persists_cursor:
  "(run net1 s = (Inr v, s1) \<longrightarrow>
      seq_num_txt s1 = Decimal (seq_num s1)
      \<and> get_starting_match_sequence_number (seq_num_txt s1) = Inr (seq_num s1))
   \<and> ((\<forall>j u. retried (net1 j u) \<or> usable (net1 j u)) \<longrightarrow>
      fst (run net1 s) = Inr PyNone
      \<and> seq_num_txt (snd (run net1 s)) = Decimal (seq_num (snd (run net1 s))))
   \<and> ((\<forall>j u. usable (net1 j u)) \<longrightarrow>
      fst (run net1 s) = Inr PyNone
      \<and> length (requests (snd (run net1 s)))
          = length (requests s) + nat (games_number s div 100 + 1)
      \<and> seq_num_txt (snd (run net1 s)) = Decimal (seq_num (snd (run net1 s))))
   \<and> ([0..games_number s div 100] = before @ i # rest
      \<and> run_loop net1 (games_number s div 100) (games_number s - games_number s div 100 * 100)
           before (print (StartMining (seq_num s)) s) = (Inr Finished, sb)
      \<and> (\<forall>j<10. retried (net1 (length (requests sb) + j)
             (get_url sb (if i = games_number s div 100
                          then games_number s - games_number s div 100 * 100 else 100)))) \<longrightarrow>
      fst (run net1 s) = Inr PyNone
      \<and> length (requests (snd (run net1 s))) = length (requests sb) + 10
      \<and> seq_num (snd (run net1 s)) = seq_num sb
      \<and> seq_num_txt (snd (run net1 s)) = Decimal (seq_num sb))
   \<and> (run net1 s = (Inr v, s1) \<and> SteamMiner_init n out k (seq_num_txt s1) = Inr t
      \<and> honours net2 \<longrightarrow>
      seq_num t = seq_num s1
      \<and> (\<forall>u \<in> set (requests (snd (run net2 t))). seq_num s1 \<le> start_at_match_seq_num u)
      \<and> (\<forall>q \<in> set (seq_nums (delivered net2 (requests (snd (run net2 t))))). seq_num s1 \<le> q)
      \<and> seq_num s1 \<le> seq_num (snd (run net2 t)))
   \<and> (run net1 s = (Inr v, s1) \<and> sorted (seq_nums (delivered_since s net1 s1)) \<longrightarrow>
      (\<forall>q \<in> set (seq_nums (delivered_since s net1 s1)). q < seq_num s1))"
proof -
  have saved: "seq_num_txt s' = Decimal (seq_num s')
      \<and> get_starting_match_sequence_number (seq_num_txt s') = Inr (seq_num s')"
    if "run net1 s = (Inr v', s')" for v' s'
  proof -
    from run_returns [OF that] obtain how s0 where "s' = save_sequence_number s0"
      by blast
    then show ?thesis
      by (simp add: save_sequence_number_def get_starting_match_sequence_number_def)
  qed
  have saved_after: "seq_num_txt (snd (run net1 s)) = Decimal (seq_num (snd (run net1 s)))"
    if "fst (run net1 s) = Inr PyNone"
    using that saved [of PyNone "snd (run net1 s)"]
    by (cases "run net1 s") simp
  have benign: "fst (run net1 s) = Inr PyNone
      \<and> seq_num_txt (snd (run net1 s)) = Decimal (seq_num (snd (run net1 s)))"
    if "\<forall>j u. retried (net1 j u) \<or> usable (net1 j u)"
    using run_benign [OF that, of s] saved_after by simp
  have usable: "fst (run net1 s) = Inr PyNone
      \<and> length (requests (snd (run net1 s)))
          = length (requests s) + nat (games_number s div 100 + 1)
      \<and> seq_num_txt (snd (run net1 s)) = Decimal (seq_num (snd (run net1 s)))"
    if "\<forall>j u. usable (net1 j u)"
    using run_usable [OF that, of s] saved_after by simp
  have exhausted: "fst (run net1 s) = Inr PyNone
      \<and> length (requests (snd (run net1 s))) = length (requests sb) + 10
      \<and> seq_num (snd (run net1 s)) = seq_num sb
      \<and> seq_num_txt (snd (run net1 s)) = Decimal (seq_num sb)"
    if h: "[0..games_number s div 100] = before @ i # rest
      \<and> run_loop net1 (games_number s div 100) (games_number s - games_number s div 100 * 100)
           before (print (StartMining (seq_num s)) s) = (Inr Finished, sb)
      \<and> (\<forall>j<10. retried (net1 (length (requests sb) + j)
             (get_url sb (if i = games_number s div 100
                          then games_number s - games_number s div 100 * 100 else 100))))"
  proof -
    from h have "fst (run net1 s) = Inr PyNone
      \<and> requests (snd (run net1 s))
          = requests sb @ replicate 10 (get_url sb (if i = games_number s div 100
                          then games_number s - games_number s div 100 * 100 else 100))
      \<and> sleeps (snd (run net1 s)) = sleeps sb @ replicate 10 60
      \<and> out_file (snd (run net1 s)) = out_file sb
      \<and> seq_num (snd (run net1 s)) = seq_num sb
      \<and> seq_num_txt (snd (run net1 s)) = Decimal (seq_num sb)"
      by (intro run_exhausted) blast+
    then show ?thesis by simp
  qed
  have second: "seq_num t = seq_num s1
      \<and> (\<forall>u \<in> set (requests (snd (run net2 t))). seq_num s1 \<le> start_at_match_seq_num u)
      \<and> (\<forall>q \<in> set (seq_nums (delivered net2 (requests (snd (run net2 t))))). seq_num s1 \<le> q)
      \<and> seq_num s1 \<le> seq_num (snd (run net2 t))"
    if h: "run net1 s = (Inr v, s1) \<and> SteamMiner_init n out k (seq_num_txt s1) = Inr t
      \<and> honours net2"
  proof -
    from h have first: "run net1 s = (Inr v, s1)"
      and init: "SteamMiner_init n out k (seq_num_txt s1) = Inr t" and net2: "honours net2"
      by simp_all
    from saved [OF first] SteamMiner_init_fresh [OF init]
    have t: "seq_num t = seq_num s1" "requests t = []"
      by simp_all
    let ?t0 = "print (StartMining (seq_num t)) t"
    have "seq_num s1 \<le> seq_num ?t0"
      and "\<forall>u \<in> set (requests ?t0). seq_num s1 \<le> start_at_match_seq_num u"
      using t by (simp_all add: print_def)
    from run_loop_lower [OF net2 this]
    have bound: "seq_num s1 \<le> seq_num (snd (run net2 t))"
      "\<forall>u \<in> set (requests (snd (run net2 t))). seq_num s1 \<le> start_at_match_seq_num u"
      by (simp_all add: run_snd)
    from honours_delivered [OF net2 bound(2), of 0]
    have "\<forall>q \<in> set (seq_nums (delivered net2 (requests (snd (run net2 t))))). seq_num s1 \<le> q"
      by (simp add: delivered_def)
    with t bound show ?thesis by simp
  qed
  have below: "\<forall>q \<in> set (seq_nums (delivered_since s net1 s1)). q < seq_num s1"
    if h: "run net1 s = (Inr v, s1) \<and> sorted (seq_nums (delivered_since s net1 s1))"
  proof (cases "seq_nums (delivered_since s net1 s1) = []")
    case True
    then show ?thesis by simp
  next
    case False
    from h have first: "run net1 s = (Inr v, s1)"
      and asc: "sorted (seq_nums (delivered_since s net1 s1))"
      by simp_all
    from run_cursor_since [OF first] False
    have "seq_num s1 = last (seq_nums (delivered_since s net1 s1)) + 1"
      by (simp add: last_map)
    with asc False have "seq_num s1 = Max (set (seq_nums (delivered_since s net1 s1))) + 1"
      by (simp add: sorted_last_Max)
    then show ?thesis
      by (auto simp add: less_Suc_eq_le dest: Max_ge [OF finite_set])
  qed
  from saved [of v s1] benign usable exhausted second below show ?thesis
    by blast
qed

theorem run_persists_cursor_witness:
  "fst (run three_records (fresh_miner 250 [] 10)) = Inr PyNone
   \<and> length (requests (snd (run three_records (fresh_miner 250 [] 10)))) = 3
   \<and> seq_num_txt (snd (run three_records (fresh_miner 250 [] 10))) = Decimal 13
   \<and> fst (run one_then_garbage (fresh_miner 250 [] 10)) = Inr PyNone
   \<and> length (requests (snd (run one_then_garbage (fresh_miner 250 [] 10)))) = 11
   \<and> seq_num (snd (run one_then_garbage (fresh_miner 250 [] 10))) = 13
   \<and> seq_num_txt (snd (run one_then_garbage (fresh_miner 250 [] 10))) = Decimal 13
   \<and> fst (run three_records (fresh_miner 3 [] 10)) = Inr PyNone
   \<and> out_file (snd (run three_records (fresh_miner 3 [] 10))) = [2, 3]
   \<and> seq_num_txt (snd (run three_records (fresh_miner 3 [] 10))) = Decimal 13
   \<and> SteamMiner_init 150 [2, 3] ''key'' (Decimal 13) = Inr (fresh_miner 150 [2, 3] 13)
   \<and> honours two_from_start
   \<and> map start_at_match_seq_num (requests (snd (run two_from_start (fresh_miner 150 [2, 3] 13))))
       = [13, 15]
   \<and> list_all (\<lambda>q. 13 \<le> q)
        (seq_nums (delivered two_from_start
           (requests (snd (run two_from_start (fresh_miner 150 [2, 3] 13))))))
   \<and> seq_nums (delivered_since (fresh_miner 3 [] 10) three_records
        (snd (run three_records (fresh_miner 3 [] 10)))) = [10, 11, 12]
   \<and> list_all (\<lambda>q. q < 13)
        (seq_nums (delivered_since (fresh_miner 3 [] 10) three_records
           (snd (run three_records (fresh_miner 3 [] 10)))))"
proof -
  note rpc = run_persists_cursor
  let ?s = "fresh_miner 3 [] 10"
  let ?s1 = "?s\<lparr>out_file := [2, 3], seq_num := 13, seq_num_txt := Decimal 13,
      requests := [\<lparr>key = ''key'', start_at_match_seq_num = 10, matches_requested = 3\<rparr>],
      stdout := [StartMining 10, Processed 100]\<rparr>"
  let ?t = "fresh_miner 250 [] 10"
  let ?tb = "?t\<lparr>out_file := [2, 3], seq_num := 13,
      requests := [\<lparr>key = ''key'', start_at_match_seq_num = 10, matches_requested = 100\<rparr>],
      stdout := [StartMining 10, Processed 100]\<rparr>"
  have wf: "well_formed (leaver_match a b)" "well_formed (plain_match a b)" for a b
    by (simp_all add: well_formed_def plain_match_sel leaver_match_sel)
  have all_usable: "\<forall>j u. usable (three_records j u)"
    by (simp add: three_records_def batch_def wf)
  have all_benign: "\<forall>j u. retried (one_then_garbage j u) \<or> usable (one_then_garbage j u)"
    by (simp add: one_then_garbage_def batch_def wf)
  have path: "[0..games_number ?t div 100] = [0] @ 1 # [2]
      \<and> run_loop one_then_garbage (games_number ?t div 100)
           (games_number ?t - games_number ?t div 100 * 100) [0]
           (print (StartMining (seq_num ?t)) ?t) = (Inr Finished, ?tb)
      \<and> (\<forall>j<10. retried (one_then_garbage (length (requests ?tb) + j)
             (get_url ?tb (if (1::int) = games_number ?t div 100
                          then games_number ?t - games_number ?t div 100 * 100 else 100))))"
    by (simp add: run_eval one_then_garbage_def)
  have first: "run three_records ?s = (Inr PyNone, ?s1)"
    by (simp add: run_eval three_records_def)
  have init: "SteamMiner_init 150 (out_file ?s1) ''key'' (seq_num_txt ?s1)
      = Inr (fresh_miner 150 [2, 3] 13)"
    by (simp add: fresh_miner_init)
  have net2: "honours two_from_start"
    by (simp add: honours_def two_from_start_def batch_def seq_nums_Cons_Some seq_nums_Nil
        plain_match_sel)
  have second: "map start_at_match_seq_num
      (requests (snd (run two_from_start (fresh_miner 150 [2, 3] 13)))) = [13, 15]"
    by (simp add: run_eval two_from_start_def)
  have nums: "seq_nums (delivered_since ?s three_records ?s1) = [10, 11, 12]"
    by (simp add: delivered_since_def fresh_miner_def three_records_def batch_def
        seq_nums_Cons_Some seq_nums_Nil plain_match_sel leaver_match_sel)
  then have asc: "sorted (seq_nums (delivered_since ?s three_records ?s1))"
    by simp
  from all_usable rpc [where ?net1.0 = three_records and s = ?t]
  have a: "fst (run three_records ?t) = Inr PyNone
      \<and> length (requests (snd (run three_records ?t)))
          = length (requests ?t) + nat (games_number ?t div 100 + 1)
      \<and> seq_num_txt (snd (run three_records ?t)) = Decimal (seq_num (snd (run three_records ?t)))"
    by blast
  from all_benign rpc [where ?net1.0 = one_then_garbage and s = ?t]
  have b: "fst (run one_then_garbage ?t) = Inr PyNone
      \<and> seq_num_txt (snd (run one_then_garbage ?t))
          = Decimal (seq_num (snd (run one_then_garbage ?t)))"
    by blast
  from path rpc [where ?net1.0 = one_then_garbage and s = ?t and before = "[0]" and i = 1
      and rest = "[2]" and sb = ?tb]
  have c: "fst (run one_then_garbage ?t) = Inr PyNone
      \<and> length (requests (snd (run one_then_garbage ?t))) = length (requests ?tb) + 10
      \<and> seq_num (snd (run one_then_garbage ?t)) = seq_num ?tb
      \<and> seq_num_txt (snd (run one_then_garbage ?t)) = Decimal (seq_num ?tb)"
    by blast
  from first init net2 asc rpc [where ?net1.0 = three_records and s = ?s and v = PyNone
      and ?s1.0 = ?s1 and n = 150 and out = "out_file ?s1" and k = "''key''"
      and t = "fresh_miner 150 [2, 3] 13" and ?net2.0 = two_from_start]
  have d: "seq_num_txt ?s1 = Decimal (seq_num ?s1)
    \<and> (\<forall>q \<in> set (seq_nums (delivered two_from_start
           (requests (snd (run two_from_start (fresh_miner 150 [2, 3] 13)))))). seq_num ?s1 \<le> q)
    \<and> (\<forall>q \<in> set (seq_nums (delivered_since ?s three_records ?s1)). q < seq_num ?s1)"
    by blast
  have seq3: "seq_num (snd (run three_records ?t)) = 13"
    by (simp add: run_eval three_records_def)
  from a b c d show ?thesis
    using first init net2 second seq3 nums by (simp add: list_all_iff fresh_miner_def)
qed

text \<open>
  C4. The claim: after each record the cursor is that record's sequence number plus
  one, and so the final cursor is the maximum of the sequence numbers plus one, however
  the records are chunked. The first half holds; the final cursor is the last record's
  number plus one, which is not the maximum when the records do not arrive in ascending
  order: a response with the records numbered 12 and 10, in this order, leaves the
  cursor at 11, and the maximum plus one is 13.
\<close>

theorem cursor_follows_last_record_not_max:
  "seq_num (snd (run (\<lambda>j u. batch [plain_match 1 12, plain_match 2 10]) (fresh_miner 2 [] 5)))
     = 11
   \<and> Max (set (seq_nums [plain_match 1 12, plain_match 2 10])) + 1 = 13"
  by (simp add: run_eval seq_nums_Cons_Some seq_nums_Nil)

text \<open>
  C4, as amended. Processing a record sets the cursor to its sequence number plus one
  whether or not \<^verbatim>\<open>valid\<close> accepted it. For a miner that \<^verbatim>\<open>SteamMiner\<close> built and a
  \<^verbatim>\<open>run\<close> that returned, let the records be all those the transport delivered in answer
  to the requests of the run, in order (\<^verbatim>\<open>run\<close> processed each of them, and each had a
  sequence number). With no record the cursor is unchanged; otherwise it is the sequence
  number of the last record plus one, which is the maximum plus one when the sequence
  numbers are in ascending order. The chunking does not matter: any other run from the
  same \<^verbatim>\<open>seq_num.txt\<close> that returns and was delivered the same sequence of records,
  over whatever number of requests, ends with the same cursor.
\<close>

theorem run_cursor_after_last_record:
  assumes "SteamMiner_init n out k f = Inr s" and "run net s = (Inr v, s')"
  shows "(match_id m = Some i \<and> valid m = Inr ok \<and> match_seq_num m = Some q \<longrightarrow>
           fst (process_matches [m] t) = Inr () \<and> seq_num (snd (process_matches [m] t)) = q + 1)
    \<and> length (seq_nums (delivered net (requests s'))) = length (delivered net (requests s'))
    \<and> (delivered net (requests s') = [] \<longrightarrow> seq_num s' = seq_num s)
    \<and> (delivered net (requests s') \<noteq> [] \<longrightarrow>
         seq_num s' = last (seq_nums (delivered net (requests s'))) + 1)
    \<and> (delivered net (requests s') \<noteq> [] \<and> sorted (seq_nums (delivered net (requests s'))) \<longrightarrow>
         seq_num s' = Max (set (seq_nums (delivered net (requests s')))) + 1)
    \<and> (SteamMiner_init n2 out2 k2 f = Inr s2 \<and> run net2 s2 = (Inr v2, s2')
         \<and> delivered net2 (requests s2') = delivered net (requests s') \<longrightarrow>
         seq_num s2' = seq_num s')"
proof -
  have step: "fst (process_matches [m] t) = Inr () \<and> seq_num (snd (process_matches [m] t)) = q + 1"
    if "match_id m = Some i" "valid m = Inr ok" "match_seq_num m = Some q"
    using that by (simp add: Let_def)
  let ?D = "delivered net (requests s')"
  from SteamMiner_init_fresh [OF assms(1)]
  have fresh: "requests s = []" and start: "get_starting_match_sequence_number f = Inr (seq_num s)"
    by simp_all
  from run_cursor [OF fresh assms(2)]
  have cur: "seq_num s' = last (seq_num s # map (\<lambda>q. q + 1) (seq_nums ?D))"
    and all: "length (seq_nums ?D) = length ?D"
    by simp_all
  have none: "seq_num s' = seq_num s" if "?D = []"
    using cur that by (simp add: seq_nums_Nil)
  have some: "seq_num s' = last (seq_nums ?D) + 1" if "?D \<noteq> []"
  proof -
    from that all have "seq_nums ?D \<noteq> []" by auto
    then show ?thesis
      using cur by (simp add: last_map)
  qed
  have top: "seq_num s' = Max (set (seq_nums ?D)) + 1" if "?D \<noteq> []" "sorted (seq_nums ?D)"
  proof -
    from that(1) all have "seq_nums ?D \<noteq> []" by auto
    with that(2) have "last (seq_nums ?D) = Max (set (seq_nums ?D))"
      by (simp add: sorted_last_Max)
    with some [OF that(1)] show ?thesis by simp
  qed
  have other: "seq_num s2' = seq_num s'"
    if init2: "SteamMiner_init n2 out2 k2 f = Inr s2" and run2: "run net2 s2 = (Inr v2, s2')"
      and same: "delivered net2 (requests s2') = ?D"
  proof -
    from SteamMiner_init_fresh [OF init2] start
    have fresh2: "requests s2 = []" and start2: "seq_num s2 = seq_num s"
      by simp_all
    from run_cursor [OF fresh2 run2] same start2 cur show ?thesis
      by simp
  qed
  from step all none some top other show ?thesis by blast
qed

theorem run_cursor_after_last_record_witness:
  "SteamMiner_init 150 [] ''key'' (Decimal 10) = Inr (fresh_miner 150 [] 10)
   \<and> fst (run two_from_start (fresh_miner 150 [] 10)) = Inr PyNone
   \<and> length (requests (snd (run two_from_start (fresh_miner 150 [] 10)))) = 2
   \<and> seq_nums (delivered two_from_start (requests (snd (run two_from_start (fresh_miner 150 [] 10)))))
       = [10, 11, 12, 13]
   \<and> seq_num (snd (run two_from_start (fresh_miner 150 [] 10))) = 14
   \<and> seq_num (snd (run two_from_start (fresh_miner 150 [] 10)))
       = Max (set (seq_nums (delivered two_from_start
           (requests (snd (run two_from_start (fresh_miner 150 [] 10))))))) + 1
   \<and> SteamMiner_init 4 [] ''key'' (Decimal 10) = Inr (fresh_miner 4 [] 10)
   \<and> fst (run four_at_once (fresh_miner 4 [] 10)) = Inr PyNone
   \<and> length (requests (snd (run four_at_once (fresh_miner 4 [] 10)))) = 1
   \<and> delivered four_at_once (requests (snd (run four_at_once (fresh_miner 4 [] 10))))
       = delivered two_from_start (requests (snd (run two_from_start (fresh_miner 150 [] 10))))
   \<and> seq_num (snd (run four_at_once (fresh_miner 4 [] 10)))
       = seq_num (snd (run two_from_start (fresh_miner 150 [] 10)))
   \<and> valid (leaver_match 1 20) = Inr False
   \<and> seq_num (snd (process_matches [leaver_match 1 20] (fresh_miner 150 [] 10))) = 21"
proof -
  let ?s = "fresh_miner 150 [] 10"
  let ?s' = "?s\<lparr>out_file := [4, 5, 4, 5], seq_num := 14, seq_num_txt := Decimal 14,
      requests := [\<lparr>key = ''key'', start_at_match_seq_num = 10, matches_requested = 100\<rparr>,
                   \<lparr>key = ''key'', start_at_match_seq_num = 12, matches_requested = 50\<rparr>],
      stdout := [StartMining 10, Processed 100, Processed 200]\<rparr>"
  let ?t = "fresh_miner 4 [] 10"
  let ?t' = "?t\<lparr>out_file := [4, 5, 4, 5], seq_num := 14, seq_num_txt := Decimal 14,
      requests := [\<lparr>key = ''key'', start_at_match_seq_num = 10, matches_requested = 4\<rparr>],
      stdout := [StartMining 10, Processed 100]\<rparr>"
  have init: "SteamMiner_init 150 [] ''key'' (Decimal 10) = Inr ?s"
    by (simp add: fresh_miner_init)
  have ran: "run two_from_start ?s = (Inr PyNone, ?s')"
    by (simp add: run_eval two_from_start_def)
  have init2: "SteamMiner_init 4 [] ''key'' (Decimal 10) = Inr ?t"
    by (simp add: fresh_miner_init)
  have ran2: "run four_at_once ?t = (Inr PyNone, ?t')"
    by (simp add: run_eval four_at_once_def)
  have d: "delivered two_from_start
        [\<lparr>key = ''key'', start_at_match_seq_num = 10, matches_requested = 100\<rparr>,
         \<lparr>key = ''key'', start_at_match_seq_num = 12, matches_requested = 50\<rparr>]
      = [plain_match 4 10, plain_match 5 11, plain_match 4 12, plain_match 5 13]"
    by (simp add: delivered_def two_from_start_def batch_def)
  have d2: "delivered four_at_once
        [\<lparr>key = ''key'', start_at_match_seq_num = 10, matches_requested = 4\<rparr>]
      = [plain_match 4 10, plain_match 5 11, plain_match 4 12, plain_match 5 13]"
    by (simp add: delivered_def four_at_once_def batch_def)
  have nums: "seq_nums [plain_match 4 10, plain_match 5 11, plain_match 4 12, plain_match 5 13]
      = [10, 11, 12, 13]"
    by (simp add: seq_nums_Cons_Some seq_nums_Nil plain_match_sel)
  have rec: "match_id (leaver_match 1 20) = Some 1 \<and> valid (leaver_match 1 20) = Inr False
      \<and> match_seq_num (leaver_match 1 20) = Some 20"
    by (simp add: leaver_match_sel)
  have same: "delivered four_at_once (requests ?t') = delivered two_from_start (requests ?s')"
    by (simp add: fresh_miner_def d d2)
  from run_cursor_after_last_record [OF init ran, of "leaver_match 1 20" 1 False 20 ?s
      4 "[]" "''key''" ?t four_at_once PyNone ?t'] rec init2 ran2 same
  have "seq_num (snd (process_matches [leaver_match 1 20] ?s)) = 20 + 1"
    and "delivered two_from_start (requests ?s') \<noteq> []
           \<and> sorted (seq_nums (delivered two_from_start (requests ?s'))) \<longrightarrow>
         seq_num ?s' = Max (set (seq_nums (delivered two_from_start (requests ?s')))) + 1"
    and "seq_num ?t' = seq_num ?s'"
    by blast+
  then show ?thesis
    using init ran init2 ran2 rec by (simp add: d d2 nums)
qed

section \<open>Failures of a request\<close>

text \<open>
  C3. The claim: every transient failure of a fetch, a network failure included, is
  followed by a sleep of 60 and a retry, and a batch that fails ten times ends the run
  without an error. \<^verbatim>\<open>get_response\<close> catches the \<^verbatim>\<open>ValueError\<close> of \<^verbatim>\<open>json.load\<close> only:
  when \<^verbatim>\<open>urllib.urlopen\<close> fails on the second batch of the run below, \<^verbatim>\<open>run\<close> raises
  at once, having slept not at all and asked for that batch once, and \<^verbatim>\<open>seq_num.txt\<close>
  still holds 10 although the cursor reached 13.
\<close>

theorem network_failure_raises:
  "run one_then_down (fresh_miner 250 [] 10)
   = (Inl IOError,
      \<lparr>games_number = 250, out_file = [2, 3], api_key = ''key'', seq_num = 13,
       seq_num_txt = Decimal 10,
       requests = [\<lparr>key = ''key'', start_at_match_seq_num = 10, matches_requested = 100\<rparr>,
                   \<lparr>key = ''key'', start_at_match_seq_num = 13, matches_requested = 100\<rparr>],
       sleeps = [],
       stdout = [StartMining 10, Processed 100]\<rparr>)"
  by (simp add: run_eval one_then_down_def max_try_def numeral_eq_Suc)

text \<open>
  C3, as amended. The outcomes of an attempt that are retried are: a body that is not
  JSON, a body that decodes to a dictionary without the \<^verbatim>\<open>'result'\<close> key, and a body
  that decodes to a list or a string without \<^verbatim>\<open>'result'\<close> in it. Each is followed by a
  sleep of 60 and another attempt at the same URL, ten attempts at most. If the first
  \<open>k < 10\<close> attempts are retried and the next one decodes to a dictionary with
  \<^verbatim>\<open>'result'\<close>, that dictionary is returned after \<open>k + 1\<close> requests and \<open>k\<close> sleeps of 60.
  If ten attempts are retried, \<^verbatim>\<open>get_response\<close> returns \<^verbatim>\<open>None\<close> after ten requests and
  ten sleeps of 60; and when that happens to a batch of a run, after the batches before
  it were completed, \<^verbatim>\<open>run\<close> returns without an error, sends no further request, and
  saves the cursor the earlier batches reached. The outcomes that raise are a request
  that fails (\<^verbatim>\<open>IOError\<close>) and a body that decodes to \<^verbatim>\<open>null\<close>, a number or a boolean
  (\<^verbatim>\<open>TypeError\<close>): when one follows \<open>k < 10\<close> retried attempts, \<^verbatim>\<open>get_response\<close> raises
  after \<open>k + 1\<close> requests and \<open>k\<close> sleeps, with no sleep and no retry for it; and when
  that happens to a batch of a run, \<^verbatim>\<open>run\<close> raises the same exception and
  \<^verbatim>\<open>seq_num.txt\<close> is left as it was before the run.
\<close>

theorem retries_then_stops:
  "((\<forall>j<k. retried (net (length (requests s) + j) u)) \<and> k < 10
      \<and> net (length (requests s) + k) u = Json g \<and> result g = Some r \<longrightarrow>
        fst (get_response net u max_try s) = Inr (Some (Dictionary g))
        \<and> requests (snd (get_response net u max_try s)) = requests s @ replicate (Suc k) u
        \<and> sleeps (snd (get_response net u max_try s)) = sleeps s @ replicate k 60)
   \<and> ((\<forall>j<10. retried (net (length (requests s) + j) u)) \<longrightarrow>
        fst (get_response net u max_try s) = Inr None
        \<and> requests (snd (get_response net u max_try s)) = requests s @ replicate 10 u
        \<and> sleeps (snd (get_response net u max_try s)) = sleeps s @ replicate 10 60)
   \<and> ((\<forall>j<k. retried (net (length (requests s) + j) u)) \<and> k < 10
      \<and> raised (net (length (requests s) + k) u) = Some e \<longrightarrow>
        fst (get_response net u max_try s) = Inl e
        \<and> requests (snd (get_response net u max_try s)) = requests s @ replicate (Suc k) u
        \<and> sleeps (snd (get_response net u max_try s)) = sleeps s @ replicate k 60)
   \<and> (chunks = games_number s div 100 \<and> remainder = games_number s - chunks * 100
      \<and> [0..chunks] = before @ i # rest
      \<and> run_loop net chunks remainder before (print (StartMining (seq_num s)) s) = (Inr Finished, s1)
      \<and> (\<forall>j<10. retried (net (length (requests s1) + j)
                      (get_url s1 (if i = chunks then remainder else 100)))) \<longrightarrow>
        fst (run net s) = Inr PyNone
        \<and> requests (snd (run net s))
            = requests s1 @ replicate 10 (get_url s1 (if i = chunks then remainder else 100))
        \<and> sleeps (snd (run net s)) = sleeps s1 @ replicate 10 60
        \<and> out_file (snd (run net s)) = out_file s1
        \<and> seq_num (snd (run net s)) = seq_num s1
        \<and> seq_num_txt (snd (run net s)) = Decimal (seq_num s1))
   \<and> (chunks = games_number s div 100 \<and> remainder = games_number s - chunks * 100
      \<and> [0..chunks] = before @ i # rest
      \<and> run_loop net chunks remainder before (print (StartMining (seq_num s)) s) = (Inr Finished, s1)
      \<and> (\<forall>j<k. retried (net (length (requests s1) + j)
                      (get_url s1 (if i = chunks then remainder else 100))))
      \<and> k < 10
      \<and> raised (net (length (requests s1) + k)
                      (get_url s1 (if i = chunks then remainder else 100))) = Some e \<longrightarrow>
        fst (run net s) = Inl e
        \<and> requests (snd (run net s))
            = requests s1 @ replicate (Suc k) (get_url s1 (if i = chunks then remainder else 100))
        \<and> sleeps (snd (run net s)) = sleeps s1 @ replicate k 60
        \<and> seq_num (snd (run net s)) = seq_num s1
        \<and> seq_num_txt (snd (run net s)) = seq_num_txt s)"
proof -
  have a: "fst (get_response net u max_try s) = Inr (Some (Dictionary g))
        \<and> requests (snd (get_response net u max_try s)) = requests s @ replicate (Suc k) u
        \<and> sleeps (snd (get_response net u max_try s)) = sleeps s @ replicate k 60"
    if "(\<forall>j<k. retried (net (length (requests s) + j) u)) \<and> k < 10
      \<and> net (length (requests s) + k) u = Json g \<and> result g = Some r"
    using that by (intro get_response_succeeds_after) (simp_all add: max_try_def)
  have b: "fst (get_response net u max_try s) = Inr None
        \<and> requests (snd (get_response net u max_try s)) = requests s @ replicate 10 u
        \<and> sleeps (snd (get_response net u max_try s)) = sleeps s @ replicate 10 60"
    if "\<forall>j<10. retried (net (length (requests s) + j) u)"
    unfolding max_try_def using that by (rule get_response_exhausted [of 10 net s u])
  have c: "fst (get_response net u max_try s) = Inl e
        \<and> requests (snd (get_response net u max_try s)) = requests s @ replicate (Suc k) u
        \<and> sleeps (snd (get_response net u max_try s)) = sleeps s @ replicate k 60"
    if "(\<forall>j<k. retried (net (length (requests s) + j) u)) \<and> k < 10
      \<and> raised (net (length (requests s) + k) u) = Some e"
    using that by (intro get_response_raises_after) (simp_all add: max_try_def)
  have d: "fst (run net s) = Inr PyNone
        \<and> requests (snd (run net s))
            = requests s1 @ replicate 10 (get_url s1 (if i = chunks then remainder else 100))
        \<and> sleeps (snd (run net s)) = sleeps s1 @ replicate 10 60
        \<and> out_file (snd (run net s)) = out_file s1
        \<and> seq_num (snd (run net s)) = seq_num s1
        \<and> seq_num_txt (snd (run net s)) = Decimal (seq_num s1)"
    if h: "chunks = games_number s div 100 \<and> remainder = games_number s - chunks * 100
      \<and> [0..chunks] = before @ i # rest
      \<and> run_loop net chunks remainder before (print (StartMining (seq_num s)) s) = (Inr Finished, s1)
      \<and> (\<forall>j<10. retried (net (length (requests s1) + j)
                      (get_url s1 (if i = chunks then remainder else 100))))"
  proof -
    from h have ch: "chunks = games_number s div 100"
      and rm: "remainder = games_number s - games_number s div 100 * 100"
      by simp_all
    from h show ?thesis
      unfolding rm ch by (intro run_exhausted) blast+
  qed
  have e: "fst (run net s) = Inl e
        \<and> requests (snd (run net s))
            = requests s1 @ replicate (Suc k) (get_url s1 (if i = chunks then remainder else 100))
        \<and> sleeps (snd (run net s)) = sleeps s1 @ replicate k 60
        \<and> seq_num (snd (run net s)) = seq_num s1
        \<and> seq_num_txt (snd (run net s)) = seq_num_txt s"
    if h: "chunks = games_number s div 100 \<and> remainder = games_number s - chunks * 100
      \<and> [0..chunks] = before @ i # rest
      \<and> run_loop net chunks remainder before (print (StartMining (seq_num s)) s) = (Inr Finished, s1)
      \<and> (\<forall>j<k. retried (net (length (requests s1) + j)
                      (get_url s1 (if i = chunks then remainder else 100))))
      \<and> k < 10
      \<and> raised (net (length (requests s1) + k)
                      (get_url s1 (if i = chunks then remainder else 100))) = Some e"
  proof -
    from h have ch: "chunks = games_number s div 100"
      and rm: "remainder = games_number s - games_number s div 100 * 100"
      by simp_all
    from h show ?thesis
      unfolding rm ch by (intro run_raises) blast+
  qed
  from a b c d e show ?thesis by blast
qed

theorem retries_then_stops_witness:
  "fst (get_response flaky (get_url (fresh_miner 100 [] 10) 100) max_try (fresh_miner 100 [] 10))
     = Inr (Some (Dictionary \<lparr>result = Some \<lparr>matches = Some [plain_match 1 10]\<rparr>\<rparr>))
   \<and> sleeps (snd (get_response flaky (get_url (fresh_miner 100 [] 10) 100) max_try
         (fresh_miner 100 [] 10))) = [60, 60, 60]
   \<and> length (requests (snd (get_response flaky (get_url (fresh_miner 100 [] 10) 100) max_try
         (fresh_miner 100 [] 10)))) = 4
   \<and> fst (get_response one_then_garbage (get_url (fresh_miner 100 [] 10) 100) max_try
         ((fresh_miner 100 [] 10)\<lparr>requests := [get_url (fresh_miner 100 [] 10) 100]\<rparr>))
     = Inr None
   \<and> fst (get_response one_then_null (get_url (fresh_miner 100 [] 10) 100) max_try
         ((fresh_miner 100 [] 10)\<lparr>requests := [get_url (fresh_miner 100 [] 10) 100]\<rparr>))
     = Inl TypeError
   \<and> fst (run one_then_garbage (fresh_miner 250 [] 10)) = Inr PyNone
   \<and> map matches_requested (requests (snd (run one_then_garbage (fresh_miner 250 [] 10))))
     = 100 # replicate 10 100
   \<and> sleeps (snd (run one_then_garbage (fresh_miner 250 [] 10))) = replicate 10 60
   \<and> out_file (snd (run one_then_garbage (fresh_miner 250 [] 10))) = [2, 3]
   \<and> seq_num_txt (snd (run one_then_garbage (fresh_miner 250 [] 10))) = Decimal 13
   \<and> fst (run one_then_null (fresh_miner 250 [] 10)) = Inl TypeError
   \<and> map matches_requested (requests (snd (run one_then_null (fresh_miner 250 [] 10))))
     = [100, 100]
   \<and> sleeps (snd (run one_then_null (fresh_miner 250 [] 10))) = []
   \<and> seq_num (snd (run one_then_null (fresh_miner 250 [] 10))) = 13
   \<and> seq_num_txt (snd (run one_then_null (fresh_miner 250 [] 10))) = Decimal 10"
proof -
  let ?s = "fresh_miner 100 [] 10"
  let ?u = "get_url ?s 100"
  let ?g = "\<lparr>result = Some \<lparr>matches = Some [plain_match 1 10]\<rparr>\<rparr>"
  have a: "(\<forall>j<3. retried (flaky (length (requests ?s) + j) ?u)) \<and> (3::nat) < 10
      \<and> flaky (length (requests ?s) + 3) ?u = Json ?g
      \<and> result ?g = Some \<lparr>matches = Some [plain_match 1 10]\<rparr>"
    by (simp add: flaky_def fresh_miner_def get_url_def batch_def less_Suc_eq numeral_3_eq_3)
  let ?s' = "?s\<lparr>requests := [?u]\<rparr>"
  have b: "\<forall>j<10. retried (one_then_garbage (length (requests ?s') + j) ?u)"
    by (simp add: one_then_garbage_def)
  have c: "(\<forall>j<0. retried (one_then_null (length (requests ?s') + j) ?u)) \<and> (0::nat) < 10
      \<and> raised (one_then_null (length (requests ?s') + 0) ?u) = Some TypeError"
    by (simp add: one_then_null_def)
  let ?t = "fresh_miner 250 [] 10"
  let ?t1 = "?t\<lparr>out_file := [2, 3], seq_num := 13,
      requests := [\<lparr>key = ''key'', start_at_match_seq_num = 10, matches_requested = 100\<rparr>],
      stdout := [StartMining 10, Processed 100]\<rparr>"
  have d: "(2::int) = games_number ?t div 100 \<and> (50::int) = games_number ?t - 2 * 100
      \<and> [0..2] = [0] @ 1 # [2]
      \<and> run_loop one_then_garbage 2 50 [0] (print (StartMining (seq_num ?t)) ?t) = (Inr Finished, ?t1)
      \<and> (\<forall>j<10. retried (one_then_garbage (length (requests ?t1) + j)
                      (get_url ?t1 (if (1::int) = 2 then 50 else 100))))"
    by (simp add: run_eval one_then_garbage_def)
  have e: "(2::int) = games_number ?t div 100 \<and> (50::int) = games_number ?t - 2 * 100
      \<and> [0..2] = [0] @ 1 # [2]
      \<and> run_loop one_then_null 2 50 [0] (print (StartMining (seq_num ?t)) ?t) = (Inr Finished, ?t1)
      \<and> (\<forall>j<0. retried (one_then_null (length (requests ?t1) + j)
                      (get_url ?t1 (if (1::int) = 2 then 50 else 100))))
      \<and> (0::nat) < 10
      \<and> raised (one_then_null (length (requests ?t1) + 0)
                      (get_url ?t1 (if (1::int) = 2 then 50 else 100))) = Some TypeError"
    by (simp add: run_eval one_then_null_def)
  note rts = retries_then_stops
  from a rts [where k = 3 and net = flaky and s = ?s and u = ?u and g = ?g]
  have "fst (get_response flaky ?u max_try ?s) = Inr (Some (Dictionary ?g))
        \<and> requests (snd (get_response flaky ?u max_try ?s)) = requests ?s @ replicate (Suc 3) ?u
        \<and> sleeps (snd (get_response flaky ?u max_try ?s)) = sleeps ?s @ replicate 3 60"
    by blast
  moreover from b rts [where net = one_then_garbage and s = ?s' and u = ?u]
  have "fst (get_response one_then_garbage ?u max_try ?s') = Inr None"
    by blast
  moreover from c rts [where k = 0 and net = one_then_null and s = ?s' and u = ?u
      and e = TypeError]
  have "fst (get_response one_then_null ?u max_try ?s') = Inl TypeError"
    by blast
  moreover from d rts [where net = one_then_garbage and s = ?t and chunks = 2
      and remainder = 50 and before = "[0]" and i = 1 and rest = "[2]" and ?s1.0 = ?t1]
  have "fst (run one_then_garbage ?t) = Inr PyNone
        \<and> requests (snd (run one_then_garbage ?t))
            = requests ?t1 @ replicate 10 (get_url ?t1 (if (1::int) = 2 then 50 else 100))
        \<and> sleeps (snd (run one_then_garbage ?t)) = sleeps ?t1 @ replicate 10 60
        \<and> out_file (snd (run one_then_garbage ?t)) = out_file ?t1
        \<and> seq_num (snd (run one_then_garbage ?t)) = seq_num ?t1
        \<and> seq_num_txt (snd (run one_then_garbage ?t)) = Decimal (seq_num ?t1)"
    by blast
  moreover from e rts [where net = one_then_null and s = ?t and chunks = 2
      and remainder = 50 and before = "[0]" and i = 1 and rest = "[2]" and ?s1.0 = ?t1
      and k = 0 and e = TypeError]
  have "fst (run one_then_null ?t) = Inl TypeError
        \<and> requests (snd (run one_then_null ?t))
            = requests ?t1 @ replicate (Suc 0) (get_url ?t1 (if (1::int) = 2 then 50 else 100))
        \<and> sleeps (snd (run one_then_null ?t)) = sleeps ?t1 @ replicate 0 60
        \<and> seq_num (snd (run one_then_null ?t)) = seq_num ?t1
        \<and> seq_num_txt (snd (run one_then_null ?t)) = seq_num_txt ?t"
    by blast
  ultimately show ?thesis
    by (simp add: fresh_miner_def get_url_def numeral_3_eq_3)
qed

section \<open>Empty results and the plan of requests\<close>

text \<open>
  C5. The claim: a response that is a well-formed result with no matches makes the
  loop stop early and send no further request. The loop has no such exit: when every
  response is an empty result, a run for 250 games sends all three requests it planned.
\<close>

theorem empty_result_is_followed_by_requests:
  "run (\<lambda>j u. empty_result) (fresh_miner 250 [] 10)
   = (Inr PyNone,
      \<lparr>games_number = 250, out_file = [], api_key = ''key'', seq_num = 10,
       seq_num_txt = Decimal 10,
       requests = [\<lparr>key = ''key'', start_at_match_seq_num = 10, matches_requested = 100\<rparr>,
                   \<lparr>key = ''key'', start_at_match_seq_num = 10, matches_requested = 100\<rparr>,
                   \<lparr>key = ''key'', start_at_match_seq_num = 10, matches_requested = 50\<rparr>],
       sleeps = [],
       stdout = [StartMining 10, Processed 100, Processed 200, Processed 300]\<rparr>)"
  by (simp add: run_eval)

text \<open>
  C5, as amended. A response that is a well-formed result with no matches does not stop
  the loop: the batch counts as processed (the request was sent once, the progress line
  is printed, cursor and output are as before) and the loop goes on with the batches that
  remain. When every response is an empty result, \<^verbatim>\<open>run\<close> returns normally after
  sending every request of its plan, one per index of \<open>[0..chunks]\<close>, with the cursor
  and the output unchanged.
\<close>

theorem empty_result_does_not_stop:
  "(net (length (requests s)) (get_url s (if i = chunks then remainder else 100)) = Json g
      \<and> result g = Some r \<and> matches r = Some [] \<longrightarrow>
        run_loop net chunks remainder (i # rest) s
        = run_loop net chunks remainder rest
            (print (Processed ((i + 1) * 100))
               (urlopen (get_url s (if i = chunks then remainder else 100)) s)))
   \<and> ((\<forall>j u. net j u = empty_result) \<longrightarrow>
        fst (run net s) = Inr PyNone
        \<and> requests (snd (run net s))
            = requests s @ map (\<lambda>i. get_url s (if i = games_number s div 100
                                       then games_number s - games_number s div 100 * 100
                                       else 100)) [0..games_number s div 100]
        \<and> out_file (snd (run net s)) = out_file s
        \<and> seq_num (snd (run net s)) = seq_num s)"
proof (intro conjI impI)
  let ?u = "get_url s (if i = chunks then remainder else 100)"
  assume "net (length (requests s)) ?u = Json g \<and> result g = Some r \<and> matches r = Some []"
  then have "get_response net ?u max_try s = (Inr (Some (Dictionary g)), urlopen ?u s)"
    and "result g = Some r" and "matches r = Some []"
    by (simp_all add: get_response_first)
  then show "run_loop net chunks remainder (i # rest) s
        = run_loop net chunks remainder rest (print (Processed ((i + 1) * 100)) (urlopen ?u s))"
    by simp
next
  assume "\<forall>j u. net j u = empty_result"
  from run_all_empty [OF this, of s]
  show "fst (run net s) = Inr PyNone"
    and "requests (snd (run net s))
            = requests s @ map (\<lambda>i. get_url s (if i = games_number s div 100
                                       then games_number s - games_number s div 100 * 100
                                       else 100)) [0..games_number s div 100]"
    and "out_file (snd (run net s)) = out_file s"
    and "seq_num (snd (run net s)) = seq_num s"
    by simp_all
qed

theorem empty_result_does_not_stop_witness:
  "run_loop (\<lambda>j u. empty_result) 2 50 [0, 1, 2] (fresh_miner 250 [] 10)
     = run_loop (\<lambda>j u. empty_result) 2 50 [1, 2]
         (print (Processed 100) (urlopen (get_url (fresh_miner 250 [] 10) 100) (fresh_miner 250 [] 10)))
   \<and> fst (run (\<lambda>j u. empty_result) (fresh_miner 250 [] 10)) = Inr PyNone
   \<and> map matches_requested (requests (snd (run (\<lambda>j u. empty_result) (fresh_miner 250 [] 10))))
       = [100, 100, 50]
   \<and> seq_num (snd (run (\<lambda>j u. empty_result) (fresh_miner 250 [] 10))) = 10"
proof -
  let ?net = "\<lambda>(j::nat) (u::url). empty_result"
  let ?s = "fresh_miner 250 [] 10"
  let ?g = "\<lparr>result = Some \<lparr>matches = Some []\<rparr>\<rparr>"
  have a: "?net (length (requests ?s)) (get_url ?s (if (0::int) = 2 then 50 else 100)) = Json ?g
      \<and> result ?g = Some \<lparr>matches = Some []\<rparr> \<and> matches \<lparr>matches = Some []\<rparr> = Some []"
    by (simp add: empty_result_def)
  have b: "\<forall>j u. ?net j u = empty_result"
    by simp
  note er = empty_result_does_not_stop
  from a er [where net = ?net and s = ?s and i = 0 and chunks = 2 and remainder = 50
      and g = ?g and rest = "[1, 2]"]
  have "run_loop ?net 2 50 (0 # [1, 2]) ?s
        = run_loop ?net 2 50 [1, 2]
            (print (Processed ((0 + 1) * 100))
               (urlopen (get_url ?s (if (0::int) = 2 then 50 else 100)) ?s))"
    by blast
  moreover from b er [where net = ?net and s = ?s]
  have "fst (run ?net ?s) = Inr PyNone
        \<and> requests (snd (run ?net ?s))
            = requests ?s @ map (\<lambda>i. get_url ?s (if i = games_number ?s div 100
                                       then games_number ?s - games_number ?s div 100 * 100
                                       else 100)) [0..games_number ?s div 100]
        \<and> out_file (snd (run ?net ?s)) = out_file ?s
        \<and> seq_num (snd (run ?net ?s)) = seq_num ?s"
    by blast
  ultimately show ?thesis
    by (simp add: fresh_miner_def get_url_def upto.simps)
qed

text \<open>
  C6. The claim: after the clamp to \<open>min(target_count, 100000 * 100)\<close> the run sends
  \<open>target_count div 100\<close> requests of size 100, then one request of size
  \<open>target_count mod 100\<close> if that is positive, and no other request. The loop runs over
  \<^verbatim>\<open>range(chunks + 1)\<close> and asks for \<^verbatim>\<open>remainder\<close> matches in its last round whatever
  the remainder is: for 200 games it sends three requests, the last of them for 0 matches.
\<close>

theorem run_200_requests:
  "(case SteamMiner_init 200 [] ''key'' (Decimal 10) of
      Inl e \<Rightarrow> False
    | Inr s \<Rightarrow> map matches_requested (requests (snd (run (\<lambda>j u. empty_result) s)))
               = [100, 100, 0])"
  by (simp add: fresh_miner_init run_eval)

section \<open>The value of a run\<close>

text \<open>
  C9. The claim: \<^verbatim>\<open>run\<close> returns a summary with the fields \<^verbatim>\<open>batches_attempted\<close>,
  \<^verbatim>\<open>records_seen\<close>, \<^verbatim>\<open>identifiers_accepted\<close> and \<^verbatim>\<open>stopped_early\<close>. \<^verbatim>\<open>run\<close> has no
  \<^verbatim>\<open>return\<close> statement: the call below evaluates to \<^verbatim>\<open>None\<close>, which has none of
  the four fields.
\<close>

theorem run_returns_no_summary:
  "fst (run three_records (fresh_miner 3 [] 10)) = Inr PyNone
   \<and> map (has_field PyNone)
       [''batches_attempted'', ''records_seen'', ''identifiers_accepted'', ''stopped_early'']
     = [False, False, False, False]"
  by (simp add: run_eval three_records_def)

text \<open>
  C9, as amended. Every call of \<^verbatim>\<open>run\<close> that returns evaluates to \<^verbatim>\<open>None\<close>, a value
  without fields: what a run produces are its effects (the identifiers appended to the
  output file, the cursor saved in \<^verbatim>\<open>seq_num.txt\<close>, the lines printed).
\<close>

theorem run_returns_None:
  assumes "run net s = (Inr v, s')"
  shows "v = PyNone \<and> \<not> has_field v name"
  using run_returns [OF assms] by auto

theorem run_returns_None_witness:
  "run two_from_start (fresh_miner 2 [] 10)
     = (Inr PyNone, (fresh_miner 2 [] 10)\<lparr>out_file := [4, 5], seq_num := 12,
          seq_num_txt := Decimal 12,
          requests := [\<lparr>key = ''key'', start_at_match_seq_num = 10, matches_requested = 2\<rparr>],
          stdout := [StartMining 10, Processed 100]\<rparr>)
   \<and> \<not> has_field PyNone ''stopped_early''"
proof -
  have ran: "run two_from_start (fresh_miner 2 [] 10)
     = (Inr PyNone, (fresh_miner 2 [] 10)\<lparr>out_file := [4, 5], seq_num := 12,
          seq_num_txt := Decimal 12,
          requests := [\<lparr>key = ''key'', start_at_match_seq_num = 10, matches_requested = 2\<rparr>],
          stdout := [StartMining 10, Processed 100]\<rparr>)"
    by (simp add: run_eval two_from_start_def)
  from run_returns_None [OF ran, of "''stopped_early''"] ran show ?thesis
    by simp
qed

end
